theory Spec2Isabelle
  imports Main
begin

section \<open>Characters and Python string operations\<close>

text \<open>
  A Python \<open>str\<close> is modelled as a \<open>string\<close> whose characters are the code points
  below 256. On that range the character classes of the \<open>re\<close> module are the ones
  written out here: \<open>\d\<close> is the ten ASCII digits, \<open>\s\<close> and \<open>\w\<close> also hold a few
  characters beyond ASCII.
\<close>

definition char_code :: "char \<Rightarrow> int" where
  "char_code c = of_char c"

definition in_range :: "char \<Rightarrow> char \<Rightarrow> char \<Rightarrow> bool" where
  "in_range lo hi c \<longleftrightarrow> char_code lo \<le> char_code c \<and> char_code c \<le> char_code hi"

definition is_digit :: "char \<Rightarrow> bool" where
  "is_digit c \<longleftrightarrow> in_range CHR ''0'' CHR ''9'' c"

definition is_alpha_ascii :: "char \<Rightarrow> bool" where
  "is_alpha_ascii c \<longleftrightarrow> in_range CHR ''a'' CHR ''z'' c \<or> in_range CHR ''A'' CHR ''Z'' c"

definition is_space :: "char \<Rightarrow> bool" where
  "is_space c \<longleftrightarrow> in_range CHR 0x09 CHR 0x0D c \<or> in_range CHR 0x1C CHR 0x20 c
     \<or> c = CHR 0x85 \<or> c = CHR 0xA0"

definition is_word :: "char \<Rightarrow> bool" where
  "is_word c \<longleftrightarrow> is_digit c \<or> is_alpha_ascii c \<or> c = CHR ''_''
     \<or> c = CHR 0xAA \<or> in_range CHR 0xB2 CHR 0xB3 c \<or> c = CHR 0xB5
     \<or> in_range CHR 0xB9 CHR 0xBA c \<or> in_range CHR 0xBC CHR 0xBE c
     \<or> in_range CHR 0xC0 CHR 0xD6 c \<or> in_range CHR 0xD8 CHR 0xF6 c
     \<or> in_range CHR 0xF8 CHR 0xFF c"

definition digit_val :: "char \<Rightarrow> int" where
  "digit_val c = char_code c - 48"

definition digit_char :: "int \<Rightarrow> char" where
  "digit_char n = char_of (48 + n)"

definition hex_val :: "char \<Rightarrow> int" where
  "hex_val c = (if is_digit c then char_code c - 48
                else if in_range CHR ''a'' CHR ''f'' c then char_code c - 87
                else char_code c - 55)"

definition hex_char :: "int \<Rightarrow> char" where
  "hex_char n = (if n < 10 then char_of (48 + n) else char_of (87 + n))"

definition is_hex :: "char \<Rightarrow> bool" where
  "is_hex c \<longleftrightarrow> is_digit c \<or> in_range CHR ''a'' CHR ''f'' c \<or> in_range CHR ''A'' CHR ''F'' c"

text \<open>\<open>int(v)\<close> on a string of decimal digits, as the groups captured by \<open>\d\<close> are.\<close>

definition py_int :: "string \<Rightarrow> int" where
  "py_int v = foldl (\<lambda>a c. 10 * a + digit_val c) 0 v"

text \<open>
  \<open>int(hex, 16)\<close>. \<open>uuid.UUID\<close> is its only caller, and \<open>UUIDFormat.validate\<close> reaches
  it only with 32 hexadecimal digits; the sign, prefix, underscore and blank syntax that
  \<open>int\<close> accepts besides is left out, and anything but hexadecimal digits is a
  \<open>ValueError\<close> (\<open>None\<close> here).
\<close>

definition py_int16 :: "string \<Rightarrow> int option" where
  "py_int16 v = (if v \<noteq> [] \<and> list_all is_hex v
                 then Some (foldl (\<lambda>a c. 16 * a + hex_val c) 0 v) else None)"

text \<open>The decimal and the hexadecimal digits of a number that is not negative.\<close>

function dec_of_int :: "int \<Rightarrow> string" where
  "dec_of_int n = (if n < 10 then [digit_char n] else dec_of_int (n div 10) @ [digit_char (n mod 10)])"
  by pat_completeness auto
termination
  by (relation "measure nat") auto

declare dec_of_int.simps [simp del]

function hex_of_int :: "int \<Rightarrow> string" where
  "hex_of_int n = (if n < 16 then [hex_char n] else hex_of_int (n div 16) @ [hex_char (n mod 16)])"
  by pat_completeness auto
termination
  by (relation "measure nat") auto

definition zfill :: "nat \<Rightarrow> string \<Rightarrow> string" where
  "zfill w s = replicate (w - length s) CHR ''0'' @ s"

text \<open>\<open>'%0wd' % i\<close> and \<open>'%0wx' % n\<close>.\<close>

definition fmt_d :: "nat \<Rightarrow> int \<Rightarrow> string" where
  "fmt_d w i = (if i < 0 then CHR ''-'' # zfill (w - 1) (dec_of_int (- i))
                else zfill w (dec_of_int i))"

definition fmt_x :: "nat \<Rightarrow> int \<Rightarrow> string" where
  "fmt_x w n = zfill w (hex_of_int n)"

primrec startswith :: "string \<Rightarrow> string \<Rightarrow> bool" where
  "startswith [] s = True"
| "startswith (p # ps) s = (case s of [] \<Rightarrow> False | c # cs \<Rightarrow> p = c \<and> startswith ps cs)"

definition endswith :: "string \<Rightarrow> string \<Rightarrow> bool" where
  "endswith p s \<longleftrightarrow> startswith (rev p) (rev s)"

definition ljust :: "nat \<Rightarrow> char \<Rightarrow> string \<Rightarrow> string" where
  "ljust w fill s = s @ replicate (w - length s) fill"

text \<open>\<open>s.replace(old, new)\<close> for a non-empty \<open>old\<close>: leftmost occurrences, not overlapping.\<close>

function str_replace :: "string \<Rightarrow> string \<Rightarrow> string \<Rightarrow> string" where
  "str_replace old new [] = []"
| "str_replace old new (c # cs) =
     (if old \<noteq> [] \<and> startswith old (c # cs)
      then new @ str_replace old new (drop (length old) (c # cs))
      else c # str_replace old new cs)"
  by pat_completeness auto
termination
  by (relation "measure (\<lambda>(old, new, s). length s)") auto

definition str_lstrip :: "string \<Rightarrow> string \<Rightarrow> string" where
  "str_lstrip chars s = dropWhile (\<lambda>c. c \<in> set chars) s"

definition str_rstrip :: "string \<Rightarrow> string \<Rightarrow> string" where
  "str_rstrip chars s = rev (dropWhile (\<lambda>c. c \<in> set chars) (rev s))"

definition str_strip :: "string \<Rightarrow> string \<Rightarrow> string" where
  "str_strip chars s = str_rstrip chars (str_lstrip chars s)"

definition ascii_lower :: "char \<Rightarrow> char" where
  "ascii_lower c = (if in_range CHR ''A'' CHR ''Z'' c then char_of (char_code c + 32) else c)"

text \<open>\<open>s.split(c, 1)\<close> for a string that contains \<open>c\<close>, and \<open>s.find(c)\<close>.\<close>

definition split_first :: "char \<Rightarrow> string \<Rightarrow> string \<times> string" where
  "split_first c s = (takeWhile (\<lambda>x. x \<noteq> c) s, drop 1 (dropWhile (\<lambda>x. x \<noteq> c) s))"

definition str_find :: "char \<Rightarrow> string \<Rightarrow> nat option" where
  "str_find c s = (if c \<in> set s then Some (length (takeWhile (\<lambda>x. x \<noteq> c) s)) else None)"

section \<open>Regular expressions as \<open>re.match\<close> runs them\<close>

text \<open>
  The patterns of \<open>formats.py\<close> are written as values of \<open>regex\<close>. The matcher is a
  backtracking one: \<open>rmatch r st\<close> lists, in the order in which backtracking tries them,
  the states in which a match of \<open>r\<close> that starts in \<open>st\<close> can end. Quantifiers are
  greedy, so the longer alternative comes first, and \<open>re.match\<close> returns the head of the
  list for the whole pattern. A state holds the character before the current position
  (for \<open>\b\<close> and \<open>^\<close>), the text still to be read, and the groups captured so far, the
  latest first.
\<close>

datatype regex =
    Epsilon
  | Lit char
  | Class "char \<Rightarrow> bool"
  | Seq regex regex
  | Alt regex regex
  | Star regex
  | Group string regex
  | Wordb
  | Bos
  | Eos

record mstate =
  prev :: "char option"
  rest :: string
  groups :: "(string \<times> string) list"

definition word_before :: "mstate \<Rightarrow> bool" where
  "word_before st = (case prev st of None \<Rightarrow> False | Some c \<Rightarrow> is_word c)"

definition word_after :: "mstate \<Rightarrow> bool" where
  "word_after st = (case rest st of [] \<Rightarrow> False | c # _ \<Rightarrow> is_word c)"

function rmatch :: "regex \<Rightarrow> mstate \<Rightarrow> mstate list" where
  "rmatch Epsilon st = [st]"
| "rmatch (Lit c) st =
     (case rest st of [] \<Rightarrow> []
      | x # xs \<Rightarrow> if x = c then [st\<lparr>prev := Some x, rest := xs\<rparr>] else [])"
| "rmatch (Class P) st =
     (case rest st of [] \<Rightarrow> []
      | x # xs \<Rightarrow> if P x then [st\<lparr>prev := Some x, rest := xs\<rparr>] else [])"
| "rmatch (Seq a b) st = concat (map (rmatch b) (rmatch a st))"
| "rmatch (Alt a b) st = rmatch a st @ rmatch b st"
| "rmatch (Star a) st =
     concat (map (\<lambda>st'. if length (rest st') < length (rest st) then rmatch (Star a) st' else [])
                 (rmatch a st)) @ [st]"
| "rmatch (Group n a) st =
     map (\<lambda>st'. st'\<lparr>groups := (n, take (length (rest st) - length (rest st')) (rest st)) # groups st'\<rparr>)
         (rmatch a st)"
| "rmatch Wordb st = (if word_before st \<noteq> word_after st then [st] else [])"
| "rmatch Bos st = (if prev st = None then [st] else [])"
| "rmatch Eos st = (if rest st = [] \<or> rest st = [CHR 0x0A] then [st] else [])"
  by pat_completeness auto
termination
  by (relation "inv_image (less_than <*lex*> less_than) (\<lambda>(r, st). (size r, length (rest st)))") auto

text \<open>
  The equation for \<open>Star\<close> holds \<open>rmatch (Star a)\<close> on its right-hand side, so the
  simplifier gets it only where a proof asks for it.
\<close>

declare rmatch.simps(6) [simp del]

definition start :: "string \<Rightarrow> mstate" where
  "start s = \<lparr>prev = None, rest = s, groups = []\<rparr>"

text \<open>\<open>PATTERN.match(value)\<close>: the first match at the start of the string, if any.\<close>

definition re_match :: "regex \<Rightarrow> string \<Rightarrow> mstate option" where
  "re_match r s = (case rmatch r (start s) of [] \<Rightarrow> None | st # _ \<Rightarrow> Some st)"

text \<open>\<open>match.groupdict()\<close>: a group that took no part in the match is \<open>None\<close>.\<close>

definition groupdict :: "mstate \<Rightarrow> string \<Rightarrow> string option" where
  "groupdict st = map_of (groups st)"

definition seqs :: "regex list \<Rightarrow> regex" where
  "seqs rs = foldr Seq rs Epsilon"

fun alts :: "regex list \<Rightarrow> regex" where
  "alts [] = Class (\<lambda>c. False)"
| "alts [r] = r"
| "alts (r # rs) = Alt r (alts rs)"

definition lits :: "string \<Rightarrow> regex" where
  "lits s = seqs (map Lit s)"

definition Opt :: "regex \<Rightarrow> regex" where
  "Opt r = Alt r Epsilon"

definition Plus :: "regex \<Rightarrow> regex" where
  "Plus r = Seq r (Star r)"

primrec times :: "nat \<Rightarrow> regex \<Rightarrow> regex" where
  "times 0 r = Epsilon"
| "times (Suc n) r = Seq r (times n r)"

primrec upto :: "nat \<Rightarrow> regex \<Rightarrow> regex" where
  "upto 0 r = Epsilon"
| "upto (Suc n) r = Opt (Seq r (upto n r))"

text \<open>\<open>r{lo,hi}\<close>\<close>

definition rep :: "nat \<Rightarrow> nat \<Rightarrow> regex \<Rightarrow> regex" where
  "rep lo hi r = Seq (times lo r) (upto (hi - lo) r)"

definition digit :: regex where
  "digit = Class is_digit"

section \<open>The patterns of \<open>formats.py\<close>\<close>

text \<open>\<open>(?P<year>\d{4})-(?P<month>\d{1,2})-(?P<day>\d{1,2})$\<close>\<close>

definition DATE_REGEX :: regex where
  "DATE_REGEX = seqs
     [Group ''year'' (rep 4 4 digit), Lit CHR ''-'',
      Group ''month'' (rep 1 2 digit), Lit CHR ''-'',
      Group ''day'' (rep 1 2 digit), Eos]"

text \<open>
  \<open>(?P<hour>\d{1,2}):(?P<minute>\d{1,2})\<close>
  \<open>(?::(?P<second>\d{1,2})(?:\.(?P<microsecond>\d{1,6})\d{0,6})?)?\<close>
\<close>

definition TIME_PARTS :: "regex list" where
  "TIME_PARTS =
     [Group ''hour'' (rep 1 2 digit), Lit CHR '':'',
      Group ''minute'' (rep 1 2 digit),
      Opt (seqs [Lit CHR '':'', Group ''second'' (rep 1 2 digit),
                 Opt (seqs [Lit CHR ''.'', Group ''microsecond'' (rep 1 6 digit), rep 0 6 digit])])]"

definition TIME_REGEX :: regex where
  "TIME_REGEX = seqs TIME_PARTS"

text \<open>
  \<open>(?P<year>\d{4})-(?P<month>\d{1,2})-(?P<day>\d{1,2})\<close>
  \<open>[T ](?P<hour>\d{1,2}):(?P<minute>\d{1,2})\<close>
  \<open>(?::(?P<second>\d{1,2})(?:\.(?P<microsecond>\d{1,6})\d{0,6})?)?\<close>
  \<open>(?P<tzinfo>Z|[+-]\d{2}(?::?\d{2})?)?$\<close>
\<close>

definition TZINFO :: regex where
  "TZINFO = Group ''tzinfo''
     (Alt (Lit CHR ''Z'')
          (seqs [Class (\<lambda>c. c = CHR ''+'' \<or> c = CHR ''-''), rep 2 2 digit,
                 Opt (seqs [Opt (Lit CHR '':''), rep 2 2 digit])]))"

definition DATETIME_REGEX :: regex where
  "DATETIME_REGEX = seqs
     ([Group ''year'' (rep 4 4 digit), Lit CHR ''-'',
       Group ''month'' (rep 1 2 digit), Lit CHR ''-'',
       Group ''day'' (rep 1 2 digit),
       Class (\<lambda>c. c = CHR ''T'' \<or> c = CHR '' '')]
      @ TIME_PARTS @ [Opt TZINFO, Eos])"

text \<open>
  \<open>[0-9a-f]{8}-[0-9a-f]{4}-[1-5][0-9a-f]{3}-[89ab][0-9a-f]{3}-[0-9a-f]{12}\<close>
\<close>

definition hex_lower :: "char \<Rightarrow> bool" where
  "hex_lower c \<longleftrightarrow> in_range CHR ''0'' CHR ''9'' c \<or> in_range CHR ''a'' CHR ''f'' c"

definition version_nibble :: "char \<Rightarrow> bool" where
  "version_nibble c \<longleftrightarrow> in_range CHR ''1'' CHR ''5'' c"

definition variant_nibble :: "char \<Rightarrow> bool" where
  "variant_nibble c \<longleftrightarrow> c = CHR ''8'' \<or> c = CHR ''9'' \<or> c = CHR ''a'' \<or> c = CHR ''b''"

definition UUID_REGEX :: regex where
  "UUID_REGEX = seqs
     [rep 8 8 (Class hex_lower), Lit CHR ''-'',
      rep 4 4 (Class hex_lower), Lit CHR ''-'',
      Class version_nibble, rep 3 3 (Class hex_lower), Lit CHR ''-'',
      Class variant_nibble, rep 3 3 (Class hex_lower), Lit CHR ''-'',
      rep 12 12 (Class hex_lower)]"

definition TOP_DOMAINS :: "string list" where
  "TOP_DOMAINS =
     [''com'', ''org'', ''net'', ''us'', ''co'', ''int'', ''mil'', ''edu'', ''gov'', ''biz'',
      ''info'', ''jobs'', ''mobi'', ''name'', ''ly'', ''tel'', ''kitchen'', ''email'', ''tech'',
      ''estate'', ''xyz'', ''codes'', ''bargains'', ''bid'', ''expert'', ''ca'', ''cn'', ''fr'',
      ''ch'', ''au'', ''in'', ''de'', ''jp'', ''nl'', ''uk'', ''mx'', ''no'', ''ru'', ''br'',
      ''se'', ''es'', ''us'']"

text \<open>
  \<open>\b(http[s]?://)?([^:\s]+)(\.\w+)*\.({TOP_DOMAINS})(/[\w\-.]+[^#?\s]+)*/?\b\<close>;
  the numbered groups are captured under their numbers.
\<close>

definition host_char :: "char \<Rightarrow> bool" where
  "host_char c \<longleftrightarrow> \<not> (c = CHR '':'' \<or> is_space c)"

definition path_head_char :: "char \<Rightarrow> bool" where
  "path_head_char c \<longleftrightarrow> is_word c \<or> c = CHR ''-'' \<or> c = CHR ''.''"

definition path_tail_char :: "char \<Rightarrow> bool" where
  "path_tail_char c \<longleftrightarrow> \<not> (c = CHR ''#'' \<or> c = CHR ''?'' \<or> is_space c)"

definition URL_REGEX :: regex where
  "URL_REGEX = seqs
     [Wordb,
      Opt (Group ''1'' (seqs [lits ''http'', Opt (Lit CHR ''s''), lits ''://''])),
      Group ''2'' (Plus (Class host_char)),
      Star (Group ''3'' (Seq (Lit CHR ''.'') (Plus (Class is_word)))),
      Lit CHR ''.'',
      Group ''4'' (alts (map lits TOP_DOMAINS)),
      Star (Group ''5'' (seqs [Lit CHR ''/'', Plus (Class path_head_char), Plus (Class path_tail_char)])),
      Opt (Lit CHR ''/''),
      Wordb]"

text \<open>\<open>(^[a-zA-Z0-9_.+-]+@[a-zA-Z0-9-]+\.[a-zA-Z0-9-.]+$)\<close>\<close>

definition is_alnum_ascii :: "char \<Rightarrow> bool" where
  "is_alnum_ascii c \<longleftrightarrow> is_alpha_ascii c \<or> is_digit c"

definition email_local_char :: "char \<Rightarrow> bool" where
  "email_local_char c \<longleftrightarrow> is_alnum_ascii c \<or> c = CHR ''_'' \<or> c = CHR ''.'' \<or> c = CHR ''+'' \<or> c = CHR ''-''"

definition email_domain_char :: "char \<Rightarrow> bool" where
  "email_domain_char c \<longleftrightarrow> is_alnum_ascii c \<or> c = CHR ''-''"

definition email_suffix_char :: "char \<Rightarrow> bool" where
  "email_suffix_char c \<longleftrightarrow> is_alnum_ascii c \<or> c = CHR ''-'' \<or> c = CHR ''.''"

definition EMAIL_REGEX :: regex where
  "EMAIL_REGEX = Group ''1'' (seqs
     [Bos, Plus (Class email_local_char), Lit CHR ''@'',
      Plus (Class email_domain_char), Lit CHR ''.'',
      Plus (Class email_suffix_char), Eos])"

section \<open>Errors and native values\<close>

text \<open>
  \<open>ValidationError\<close> carries the text and the code it is built with. The other
  constructors are the built-in exceptions that leave a converter uncaught.
\<close>

datatype error =
    ValidationError string string
  | ValueError
  | AssertionError
  | KeyError
  | TypeError

text \<open>
  \<open>BaseFormat.validation_error\<close>: the templates of \<open>formats.py\<close> have no placeholder,
  so \<open>format(**self.__dict__)\<close> returns them as they are.
\<close>

definition validation_error :: "(string \<times> string) list \<Rightarrow> string \<Rightarrow> error" where
  "validation_error errors code =
     (case map_of errors code of None \<Rightarrow> KeyError | Some text \<Rightarrow> ValidationError text code)"

text \<open>
  \<open>datetime.date\<close>, \<open>datetime.time\<close> (without \<open>tzinfo\<close>, as \<open>TimeFormat\<close> builds it)
  and \<open>datetime.datetime\<close>, whose \<open>tzinfo\<close> is \<open>None\<close> or a \<open>datetime.timezone\<close> given
  by its offset in minutes. The constructors make the range checks of the library.
\<close>

datatype date = Date int int int

datatype time = Time int int int int

datatype datetime = DateTime int int int int int int int "int option"

definition is_leap :: "int \<Rightarrow> bool" where
  "is_leap y \<longleftrightarrow> y mod 4 = 0 \<and> (y mod 100 \<noteq> 0 \<or> y mod 400 = 0)"

definition days_in_month :: "int \<Rightarrow> int \<Rightarrow> int" where
  "days_in_month y m =
     (if m = 2 then (if is_leap y then 29 else 28)
      else if m = 4 \<or> m = 6 \<or> m = 9 \<or> m = 11 then 30 else 31)"

definition date_ok :: "int \<Rightarrow> int \<Rightarrow> int \<Rightarrow> bool" where
  "date_ok y m d \<longleftrightarrow> 1 \<le> y \<and> y \<le> 9999 \<and> 1 \<le> m \<and> m \<le> 12 \<and> 1 \<le> d \<and> d \<le> days_in_month y m"

definition time_ok :: "int \<Rightarrow> int \<Rightarrow> int \<Rightarrow> int \<Rightarrow> bool" where
  "time_ok h mi s us \<longleftrightarrow> 0 \<le> h \<and> h \<le> 23 \<and> 0 \<le> mi \<and> mi \<le> 59 \<and> 0 \<le> s \<and> s \<le> 59
     \<and> 0 \<le> us \<and> us \<le> 999999"

definition date_new :: "int \<Rightarrow> int \<Rightarrow> int \<Rightarrow> error + date" where
  "date_new y m d = (if date_ok y m d then Inr (Date y m d) else Inl ValueError)"

definition time_new :: "int \<Rightarrow> int \<Rightarrow> int \<Rightarrow> int \<Rightarrow> error + time" where
  "time_new h mi s us = (if time_ok h mi s us then Inr (Time h mi s us) else Inl ValueError)"

definition datetime_new ::
  "int \<Rightarrow> int \<Rightarrow> int \<Rightarrow> int \<Rightarrow> int \<Rightarrow> int \<Rightarrow> int \<Rightarrow> int option \<Rightarrow> error + datetime" where
  "datetime_new y m d h mi s us tz =
     (if date_ok y m d \<and> time_ok h mi s us then Inr (DateTime y m d h mi s us tz)
      else Inl ValueError)"

text \<open>\<open>datetime.timezone(delta)\<close>, the offset strictly between -24 and 24 hours.\<close>

definition timezone :: "int \<Rightarrow> error + int" where
  "timezone delta = (if - 1440 < delta \<and> delta < 1440 then Inr delta else Inl ValueError)"

text \<open>\<open>isoformat()\<close>\<close>

fun date_isoformat :: "date \<Rightarrow> string" where
  "date_isoformat (Date y m d) = fmt_d 4 y @ ''-'' @ fmt_d 2 m @ ''-'' @ fmt_d 2 d"

definition hms_isoformat :: "int \<Rightarrow> int \<Rightarrow> int \<Rightarrow> int \<Rightarrow> string" where
  "hms_isoformat h mi s us =
     fmt_d 2 h @ '':'' @ fmt_d 2 mi @ '':'' @ fmt_d 2 s @ (if us \<noteq> 0 then ''.'' @ fmt_d 6 us else [])"

fun time_isoformat :: "time \<Rightarrow> string" where
  "time_isoformat (Time h mi s us) = hms_isoformat h mi s us"

definition format_offset :: "int option \<Rightarrow> string" where
  "format_offset off =
     (case off of None \<Rightarrow> []
      | Some d \<Rightarrow> (if d < 0 then ''-'' else ''+'') @ fmt_d 2 (\<bar>d\<bar> div 60) @ '':'' @ fmt_d 2 (\<bar>d\<bar> mod 60))"

fun datetime_isoformat :: "char \<Rightarrow> datetime \<Rightarrow> string" where
  "datetime_isoformat sep (DateTime y m d h mi s us tz) =
     date_isoformat (Date y m d) @ [sep] @ hms_isoformat h mi s us @ format_offset tz"

text \<open>\<open>urllib.parse.ParseResult\<close>\<close>

record ParseResult =
  scheme :: string
  netloc :: string
  path :: string
  params :: string
  query :: string
  fragment :: string

text \<open>The values a converter is handed or returns. A \<open>uuid.UUID\<close> is its 128-bit integer.\<close>

datatype pyval =
    PyNone
  | PyStr string
  | PyDate date
  | PyTime time
  | PyDateTime datetime
  | PyUUID int
  | PyURL ParseResult

section \<open>\<open>uuid.UUID\<close>\<close>

text \<open>\<open>uuid.UUID(hex)\<close> and \<open>str\<close> of the result.\<close>

definition uuid_UUID :: "string \<Rightarrow> error + int" where
  "uuid_UUID hex0 =
     (let hex1 = str_replace ''uuid:'' [] (str_replace ''urn:'' [] hex0);
          hex2 = str_replace ''-'' [] (str_strip ''{}'' hex1)
      in if length hex2 \<noteq> 32 then Inl ValueError
         else (case py_int16 hex2 of
                 None \<Rightarrow> Inl ValueError
               | Some n \<Rightarrow> if 0 \<le> n \<and> n < 2 ^ 128 then Inr n else Inl ValueError))"

definition uuid_str :: "int \<Rightarrow> string" where
  "uuid_str n =
     (let hex = fmt_x 32 n
      in take 8 hex @ ''-'' @ take 4 (drop 8 hex) @ ''-'' @ take 4 (drop 12 hex) @ ''-''
         @ take 4 (drop 16 hex) @ ''-'' @ drop 20 hex)"

section \<open>\<open>ipaddress\<close>\<close>

text \<open>
  \<open>ipaddress.ip_address\<close> on a string, as CPython 3.11.10 has it and as \<open>urlsplit\<close> calls
  it for a host in square brackets: \<open>IPv4Address\<close> is tried first, then \<open>IPv6Address\<close>.
  Each returns the integer of the address; \<open>None\<close> stands for the \<open>AddressValueError\<close>
  that \<open>ip_address\<close> catches.
\<close>

text \<open>\<open>s.split(c)\<close> for a separator of one character.\<close>

fun str_split :: "char \<Rightarrow> string \<Rightarrow> string list" where
  "str_split c [] = [[]]"
| "str_split c (x # xs) =
     (if x = c then [] # str_split c xs
      else (case str_split c xs of [] \<Rightarrow> [[x]] | p # ps \<Rightarrow> (x # p) # ps))"

text \<open>\<open>_BaseV4._parse_octet\<close>, \<open>_BaseV4._ip_int_from_string\<close> and \<open>IPv4Address(address)\<close>.\<close>

definition parse_octet :: "string \<Rightarrow> int option" where
  "parse_octet octet_str =
     (if octet_str = [] then None
      else if \<not> list_all is_digit octet_str then None
      else if 3 < length octet_str then None
      else if octet_str \<noteq> ''0'' \<and> hd octet_str = CHR ''0'' then None
      else if 255 < py_int octet_str then None
      else Some (py_int octet_str))"

definition ip4_int_from_string :: "string \<Rightarrow> int option" where
  "ip4_int_from_string ip_str =
     (if ip_str = [] then None
      else let octets = str_split CHR ''.'' ip_str
           in if length octets \<noteq> 4 then None
              else map_option (foldl (\<lambda>a b. 256 * a + b) 0) (those (map parse_octet octets)))"

definition IPv4Address :: "string \<Rightarrow> int option" where
  "IPv4Address addr_str =
     (if CHR ''/'' \<in> set addr_str then None else ip4_int_from_string addr_str)"

text \<open>
  \<open>_BaseV6._parse_hextet\<close>; \<open>_HEX_DIGITS\<close> holds the digits and the letters \<open>a\<close> to \<open>f\<close>
  in both cases, and \<open>int('', 16)\<close> raises.
\<close>

definition parse_hextet :: "string \<Rightarrow> int option" where
  "parse_hextet hextet_str =
     (if \<not> list_all is_hex hextet_str then None
      else if 4 < length hextet_str then None
      else py_int16 hextet_str)"

text \<open>\<open>_BaseV6._split_scope_id\<close>: the address and what follows the first \<open>%\<close>.\<close>

definition split_scope_id :: "string \<Rightarrow> (string \<times> string option) option" where
  "split_scope_id ip_str =
     (if CHR ''%'' \<notin> set ip_str then Some (ip_str, None)
      else let (addr, scope_id) = split_first CHR ''%'' ip_str
           in if scope_id = [] \<or> CHR ''%'' \<in> set scope_id then None
              else Some (addr, Some scope_id))"

text \<open>
  The middle of \<open>_BaseV6._ip_int_from_string\<close>: from the parts between the colons,
  \<open>(parts_hi, parts_lo, parts_skipped)\<close>. The empty parts that are not at either end
  are the places of \<open>::\<close>, and there may be one at most.
\<close>

definition hextet_layout :: "string list \<Rightarrow> (nat \<times> nat \<times> nat) option" where
  "hextet_layout parts =
     (case filter (\<lambda>i. parts ! i = []) [1 ..< length parts - 1] of
        [] \<Rightarrow>
          if length parts \<noteq> 8 \<or> hd parts = [] \<or> last parts = [] then None
          else Some (length parts, 0, 0)
      | [skip_index] \<Rightarrow>
          (let parts_hi = (if hd parts = [] then skip_index - 1 else skip_index);
               parts_lo = (if last parts = [] then length parts - skip_index - 1 - 1
                           else length parts - skip_index - 1)
           in if hd parts = [] \<and> parts_hi \<noteq> 0 then None
              else if last parts = [] \<and> parts_lo \<noteq> 0 then None
              else if 8 - int (parts_hi + parts_lo) < 1 then None
              else Some (parts_hi, parts_lo, 8 - (parts_hi + parts_lo)))
      | _ \<Rightarrow> None)"

definition ip6_int_from_string :: "string \<Rightarrow> int option" where
  "ip6_int_from_string ip_str =
     (if ip_str = [] then None
      else let parts0 = str_split CHR '':'' ip_str
           in if length parts0 < 3 then None
              else case (if CHR ''.'' \<in> set (last parts0)
                         then map_option
                                (\<lambda>ipv4_int. butlast parts0 @
                                   [hex_of_int (ipv4_int div 65536 mod 65536),
                                    hex_of_int (ipv4_int mod 65536)])
                                (IPv4Address (last parts0))
                         else Some parts0) of
                None \<Rightarrow> None
              | Some parts \<Rightarrow>
                  if 9 < length parts then None
                  else (case hextet_layout parts of
                          None \<Rightarrow> None
                        | Some (parts_hi, parts_lo, parts_skipped) \<Rightarrow>
                            (case (those (map parse_hextet (take parts_hi parts)),
                                   those (map parse_hextet (drop (length parts - parts_lo) parts))) of
                               (Some hs, Some ls) \<Rightarrow>
                                 Some (foldl (\<lambda>a b. 65536 * a + b)
                                         (foldl (\<lambda>a b. 65536 * a + b) 0 hs * 65536 ^ parts_skipped) ls)
                             | _ \<Rightarrow> None)))"

definition IPv6Address :: "string \<Rightarrow> int option" where
  "IPv6Address addr_str =
     (if CHR ''/'' \<in> set addr_str then None
      else case split_scope_id addr_str of
             None \<Rightarrow> None
           | Some (addr, scope_id) \<Rightarrow> ip6_int_from_string addr)"

datatype ip_addr = IPv4 int | IPv6 int

definition ip_address :: "string \<Rightarrow> error + ip_addr" where
  "ip_address address =
     (case IPv4Address address of
        Some v \<Rightarrow> Inr (IPv4 v)
      | None \<Rightarrow> (case IPv6Address address of Some v \<Rightarrow> Inr (IPv6 v) | None \<Rightarrow> Inl ValueError))"

section \<open>\<open>urllib.parse\<close>\<close>

text \<open>
  \<open>urlsplit\<close>, \<open>urlparse\<close>, \<open>urlunsplit\<close> and \<open>urlunparse\<close> as CPython 3.11.10 has them,
  with the defaults \<open>scheme=''\<close> and \<open>allow_fragments=True\<close>. \<open>_checknetloc\<close> raises
  only when the NFKC form of a non-ASCII netloc holds one of \<open>/?#@:\<close>, which no
  character below 256 produces, so it is left out.
\<close>

text \<open>
  \<open>_check_bracketed_host\<close>, which \<open>urlsplit\<close> runs on the host between square brackets;
  \<open>None\<close> when it returns, the exception when it raises. A host that starts with \<open>v\<close>
  has to match \<open>\Av[a-fA-F0-9]+\..+\Z\<close>: after the \<open>v\<close> the longest run of hex digits
  is not empty (a shorter run is followed by a hex digit, not by the dot), a dot follows
  it, and what follows the dot is not empty and holds no line feed. Any other host has
  to be an IPv6 address.
\<close>

definition ipvfuture :: "string \<Rightarrow> bool" where
  "ipvfuture hostname =
     (case hostname of
        [] \<Rightarrow> False
      | v # h1 \<Rightarrow>
          (let hx = takeWhile is_hex h1; h2 = drop (length hx) h1
           in v = CHR ''v'' \<and> hx \<noteq> [] \<and>
              (case h2 of
                 [] \<Rightarrow> False
               | d # h3 \<Rightarrow> d = CHR ''.'' \<and> h3 \<noteq> [] \<and> CHR 0x0A \<notin> set h3)))"

definition check_bracketed_host :: "string \<Rightarrow> error option" where
  "check_bracketed_host hostname =
     (if startswith ''v'' hostname
      then (if ipvfuture hostname then None else Some ValueError)
      else (case ip_address hostname of
              Inl e \<Rightarrow> Some e
            | Inr (IPv4 v) \<Rightarrow> Some ValueError
            | Inr (IPv6 v) \<Rightarrow> None))"

record SplitResult =
  sr_scheme :: string
  sr_netloc :: string
  sr_path :: string
  sr_query :: string
  sr_fragment :: string

definition C0_CONTROL_OR_SPACE :: string where
  "C0_CONTROL_OR_SPACE = map char_of [0 ..< 33 :: nat]"

definition scheme_chars :: string where
  "scheme_chars = ''abcdefghijklmnopqrstuvwxyzABCDEFGHIJKLMNOPQRSTUVWXYZ0123456789+-.''"

definition uses_netloc :: "string list" where
  "uses_netloc = [[], ''ftp'', ''http'', ''gopher'', ''nntp'', ''telnet'',
     ''imap'', ''wais'', ''file'', ''mms'', ''https'', ''shttp'',
     ''snews'', ''prospero'', ''rtsp'', ''rtsps'', ''rtspu'', ''rsync'',
     ''svn'', ''svn+ssh'', ''sftp'', ''nfs'', ''git'', ''git+ssh'',
     ''ws'', ''wss'']"

definition uses_params :: "string list" where
  "uses_params = [[], ''ftp'', ''hdl'', ''prospero'', ''http'', ''imap'',
     ''https'', ''shttp'', ''rtsp'', ''rtsps'', ''rtspu'', ''sip'',
     ''sips'', ''mms'', ''sftp'', ''tel'']"

text \<open>The scheme and what follows the colon, when the text before the first colon is a scheme.\<close>

definition split_scheme :: "string \<Rightarrow> string \<times> string" where
  "split_scheme url =
     (case str_find CHR '':'' url of
        None \<Rightarrow> ([], url)
      | Some i \<Rightarrow>
          if 0 < i \<and> is_alpha_ascii (hd url) \<and> list_all (\<lambda>c. c \<in> set scheme_chars) (take i url)
          then (map ascii_lower (take i url), drop (Suc i) url)
          else ([], url))"

text \<open>\<open>_splitnetloc(url, 2)\<close> for a \<open>url\<close> that starts with two slashes.\<close>

definition splitnetloc :: "string \<Rightarrow> string \<times> string" where
  "splitnetloc url =
     (let body = drop 2 url;
          dom = takeWhile (\<lambda>c. c \<noteq> CHR ''/'' \<and> c \<noteq> CHR ''?'' \<and> c \<noteq> CHR ''#'') body
      in (dom, drop (length dom) body))"

definition urlsplit :: "string \<Rightarrow> error + SplitResult" where
  "urlsplit url0 =
     (let url1 = str_lstrip C0_CONTROL_OR_SPACE url0;
          url2 = str_replace [CHR 0x0A] [] (str_replace [CHR 0x0D] [] (str_replace [CHR 0x09] [] url1));
          (sch, url3) = split_scheme url2;
          (loc, url4) = (if take 2 url3 = ''//'' then splitnetloc url3 else ([], url3));
          (url5, frag) = (if CHR ''#'' \<in> set url4 then split_first CHR ''#'' url4 else (url4, []));
          (url6, qry) = (if CHR ''?'' \<in> set url5 then split_first CHR ''?'' url5 else (url5, []))
      in if (CHR ''['' \<in> set loc \<and> CHR '']'' \<notin> set loc) \<or> (CHR '']'' \<in> set loc \<and> CHR ''['' \<notin> set loc)
         then Inl ValueError
         else case (if CHR ''['' \<in> set loc \<and> CHR '']'' \<in> set loc
                    then check_bracketed_host
                           (fst (split_first CHR '']'' (snd (split_first CHR ''['' loc))))
                    else None) of
                Some e \<Rightarrow> Inl e
              | None \<Rightarrow> Inr \<lparr>sr_scheme = sch, sr_netloc = loc, sr_path = url6, sr_query = qry,
                               sr_fragment = frag\<rparr>)"

text \<open>\<open>_splitparams\<close>: the parameters of the last path segment.\<close>

definition splitparams :: "string \<Rightarrow> string \<times> string" where
  "splitparams url =
     (let from = (if CHR ''/'' \<in> set url
                  then length url - Suc (length (takeWhile (\<lambda>c. c \<noteq> CHR ''/'') (rev url))) else 0);
          seg = drop from url
      in if CHR '';'' \<in> set seg
         then (take from url @ takeWhile (\<lambda>c. c \<noteq> CHR '';'') seg,
               drop 1 (dropWhile (\<lambda>c. c \<noteq> CHR '';'') seg))
         else (url, []))"

definition urlparse :: "string \<Rightarrow> error + ParseResult" where
  "urlparse url =
     (case urlsplit url of
        Inl e \<Rightarrow> Inl e
      | Inr r \<Rightarrow>
          (let (p, prm) = (if sr_scheme r \<in> set uses_params \<and> CHR '';'' \<in> set (sr_path r)
                           then splitparams (sr_path r) else (sr_path r, []))
           in Inr \<lparr>scheme = sr_scheme r, netloc = sr_netloc r, path = p, params = prm,
                    query = sr_query r, fragment = sr_fragment r\<rparr>))"

definition urlunsplit :: "SplitResult \<Rightarrow> string" where
  "urlunsplit r =
     (let url0 = sr_path r;
          url1 = (if sr_netloc r \<noteq> [] \<or> (sr_scheme r \<noteq> [] \<and> sr_scheme r \<in> set uses_netloc)
                     \<or> take 2 url0 = ''//''
                  then ''//'' @ sr_netloc r @ (if url0 \<noteq> [] \<and> take 1 url0 \<noteq> ''/'' then ''/'' @ url0 else url0)
                  else url0);
          url2 = (if sr_scheme r \<noteq> [] then sr_scheme r @ '':'' @ url1 else url1);
          url3 = (if sr_query r \<noteq> [] then url2 @ ''?'' @ sr_query r else url2)
      in if sr_fragment r \<noteq> [] then url3 @ ''#'' @ sr_fragment r else url3)"

definition urlunparse :: "ParseResult \<Rightarrow> string" where
  "urlunparse r =
     urlunsplit \<lparr>sr_scheme = scheme r, sr_netloc = netloc r,
                 sr_path = (if params r \<noteq> [] then path r @ '';'' @ params r else path r),
                 sr_query = query r, sr_fragment = fragment r\<rparr>"

definition geturl :: "ParseResult \<Rightarrow> string" where
  "geturl r = urlunparse r"

section \<open>\<open>str\<close> of a value\<close>

text \<open>
  \<open>str(obj)\<close>, which \<open>UUIDFormat.serialize\<close> applies to whatever it is given. For a
  \<open>ParseResult\<close> it is the named tuple's \<open>repr\<close>, built from the \<open>repr\<close> of its
  strings.
\<close>

definition is_printable :: "char \<Rightarrow> bool" where
  "is_printable c \<longleftrightarrow> in_range CHR 0x20 CHR 0x7E c \<or> in_range CHR 0xA1 CHR 0xAC c
     \<or> in_range CHR 0xAE CHR 0xFF c"

definition py_repr_char :: "char \<Rightarrow> char \<Rightarrow> string" where
  "py_repr_char quote c =
     (if c = quote \<or> c = CHR 0x5C then [CHR 0x5C, c]
      else if c = CHR 0x09 then [CHR 0x5C, CHR ''t'']
      else if c = CHR 0x0A then [CHR 0x5C, CHR ''n'']
      else if c = CHR 0x0D then [CHR 0x5C, CHR ''r'']
      else if is_printable c then [c]
      else [CHR 0x5C, CHR ''x''] @ fmt_x 2 (char_code c))"

definition py_repr :: "string \<Rightarrow> string" where
  "py_repr s =
     (let quote = (if CHR 0x27 \<in> set s \<and> CHR 0x22 \<notin> set s then CHR 0x22 else CHR 0x27)
      in [quote] @ concat (map (py_repr_char quote) s) @ [quote])"

fun py_str :: "pyval \<Rightarrow> string" where
  "py_str PyNone = ''None''"
| "py_str (PyStr s) = s"
| "py_str (PyDate d) = date_isoformat d"
| "py_str (PyTime t) = time_isoformat t"
| "py_str (PyDateTime dt) = datetime_isoformat CHR '' '' dt"
| "py_str (PyUUID n) = uuid_str n"
| "py_str (PyURL r) =
     ''ParseResult(scheme='' @ py_repr (scheme r) @ '', netloc='' @ py_repr (netloc r)
     @ '', path='' @ py_repr (path r) @ '', params='' @ py_repr (params r)
     @ '', query='' @ py_repr (query r) @ '', fragment='' @ py_repr (fragment r) @ '')''"

section \<open>The converters\<close>

text \<open>
  \<open>{k: int(v) for k, v in groups.items() if v is not None}\<close>, read by keyword: a key
  that is absent leaves the constructor's default, which is 0 for the fields of a time
  and does not exist for year, month and day.
\<close>

definition kwarg :: "(string \<Rightarrow> string option) \<Rightarrow> string \<Rightarrow> int option" where
  "kwarg g k = map_option py_int (g k)"

definition kwarg0 :: "(string \<Rightarrow> string option) \<Rightarrow> string \<Rightarrow> int" where
  "kwarg0 g k = (case kwarg g k of None \<Rightarrow> 0 | Some v \<Rightarrow> v)"

text \<open>
  \<open>if groups["microsecond"]: groups["microsecond"] = groups["microsecond"].ljust(6, "0")\<close>
\<close>

definition pad_microsecond :: "(string \<Rightarrow> string option) \<Rightarrow> (string \<Rightarrow> string option)" where
  "pad_microsecond g =
     (case g ''microsecond'' of
        None \<Rightarrow> g
      | Some v \<Rightarrow> if v \<noteq> [] then g(''microsecond'' \<mapsto> ljust 6 CHR ''0'' v) else g)"

subsection \<open>DateFormat\<close>

definition DateFormat_errors :: "(string \<times> string) list" where
  "DateFormat_errors =
     [(''format'', ''Must be a valid date format.''), (''invalid'', ''Must be a real date.'')]"

fun DateFormat_is_native_type :: "pyval \<Rightarrow> bool" where
  "DateFormat_is_native_type (PyDate d) = True"
| "DateFormat_is_native_type (PyDateTime dt) = True"
| "DateFormat_is_native_type v = False"

definition DateFormat_validate :: "string \<Rightarrow> error + pyval" where
  "DateFormat_validate value =
     (case re_match DATE_REGEX value of
        None \<Rightarrow> Inl (validation_error DateFormat_errors ''format'')
      | Some m \<Rightarrow>
          (let kwargs = kwarg (groupdict m)
           in case (kwargs ''year'', kwargs ''month'', kwargs ''day'') of
                (Some y, Some mo, Some d) \<Rightarrow>
                  (case date_new y mo d of
                     Inr v \<Rightarrow> Inr (PyDate v)
                   | Inl e \<Rightarrow> if e = ValueError then Inl (validation_error DateFormat_errors ''invalid'')
                              else Inl e)
              | _ \<Rightarrow> Inl TypeError))"

fun DateFormat_serialize :: "pyval \<Rightarrow> error + pyval" where
  "DateFormat_serialize PyNone = Inr PyNone"
| "DateFormat_serialize (PyDate d) = Inr (PyStr (date_isoformat d))"
| "DateFormat_serialize (PyDateTime dt) = Inr (PyStr (datetime_isoformat CHR ''T'' dt))"
| "DateFormat_serialize v = Inl AssertionError"

subsection \<open>TimeFormat\<close>

definition TimeFormat_errors :: "(string \<times> string) list" where
  "TimeFormat_errors =
     [(''format'', ''Must be a valid time format.''), (''invalid'', ''Must be a real time.'')]"

fun TimeFormat_is_native_type :: "pyval \<Rightarrow> bool" where
  "TimeFormat_is_native_type (PyTime t) = True"
| "TimeFormat_is_native_type v = False"

definition TimeFormat_validate :: "string \<Rightarrow> error + pyval" where
  "TimeFormat_validate value =
     (case re_match TIME_REGEX value of
        None \<Rightarrow> Inl (validation_error TimeFormat_errors ''format'')
      | Some m \<Rightarrow>
          (let groups = pad_microsecond (groupdict m)
           in case time_new (kwarg0 groups ''hour'') (kwarg0 groups ''minute'')
                            (kwarg0 groups ''second'') (kwarg0 groups ''microsecond'') of
                Inr v \<Rightarrow> Inr (PyTime v)
              | Inl e \<Rightarrow> if e = ValueError then Inl (validation_error TimeFormat_errors ''invalid'')
                         else Inl e))"

fun TimeFormat_serialize :: "pyval \<Rightarrow> error + pyval" where
  "TimeFormat_serialize PyNone = Inr PyNone"
| "TimeFormat_serialize (PyTime t) = Inr (PyStr (time_isoformat t))"
| "TimeFormat_serialize v = Inl AssertionError"

subsection \<open>DateTimeFormat\<close>

definition DateTimeFormat_errors :: "(string \<times> string) list" where
  "DateTimeFormat_errors =
     [(''format'', ''Must be a valid datetime format.''), (''invalid'', ''Must be a real datetime.'')]"

fun DateTimeFormat_is_native_type :: "pyval \<Rightarrow> bool" where
  "DateTimeFormat_is_native_type (PyDateTime dt) = True"
| "DateTimeFormat_is_native_type v = False"

text \<open>
  The time zone of \<open>DateTimeFormat.validate\<close>, from the popped \<open>tzinfo\<close> group: the
  minutes are the last two characters of a designator longer than three, the hours the
  second and third character, the sign the first. \<open>datetime.timezone\<close> rejects an
  offset of 24 hours or more, and nothing catches that.
\<close>

definition tzinfo_of :: "string option \<Rightarrow> error + int option" where
  "tzinfo_of tzinfo_str =
     (if tzinfo_str = Some ''Z'' then Inr (Some 0)
      else case tzinfo_str of
        None \<Rightarrow> Inr None
      | Some s \<Rightarrow>
          (let offset_mins = (if length s > 3 then py_int (drop (length s - 2) s) else 0);
               offset_hours = py_int (take 2 (drop 1 s));
               delta = 60 * offset_hours + offset_mins;
               delta' = (if take 1 s = ''-'' then - delta else delta)
           in case timezone delta' of Inl e \<Rightarrow> Inl e | Inr off \<Rightarrow> Inr (Some off)))"

definition DateTimeFormat_validate :: "string \<Rightarrow> error + pyval" where
  "DateTimeFormat_validate value =
     (case re_match DATETIME_REGEX value of
        None \<Rightarrow> Inl (validation_error DateTimeFormat_errors ''format'')
      | Some m \<Rightarrow>
          (let groups = pad_microsecond (groupdict m)
           in case tzinfo_of (groups ''tzinfo'') of
                Inl e \<Rightarrow> Inl e
              | Inr tzinfo \<Rightarrow>
                  (let kwargs = kwarg groups
                   in case (kwargs ''year'', kwargs ''month'', kwargs ''day'') of
                        (Some y, Some mo, Some d) \<Rightarrow>
                          (case datetime_new y mo d (kwarg0 groups ''hour'') (kwarg0 groups ''minute'')
                                  (kwarg0 groups ''second'') (kwarg0 groups ''microsecond'') tzinfo of
                             Inr v \<Rightarrow> Inr (PyDateTime v)
                           | Inl e \<Rightarrow> if e = ValueError
                                      then Inl (validation_error DateTimeFormat_errors ''invalid'')
                                      else Inl e)
                      | _ \<Rightarrow> Inl TypeError)))"

fun DateTimeFormat_serialize :: "pyval \<Rightarrow> error + pyval" where
  "DateTimeFormat_serialize PyNone = Inr PyNone"
| "DateTimeFormat_serialize (PyDateTime dt) =
     (let v = datetime_isoformat CHR ''T'' dt
      in Inr (PyStr (if endswith ''+00:00'' v then take (length v - 6) v @ ''Z'' else v)))"
| "DateTimeFormat_serialize v = Inl AssertionError"

subsection \<open>UUIDFormat\<close>

definition UUIDFormat_errors :: "(string \<times> string) list" where
  "UUIDFormat_errors = [(''format'', ''Must be valid UUID format.'')]"

fun UUIDFormat_is_native_type :: "pyval \<Rightarrow> bool" where
  "UUIDFormat_is_native_type (PyUUID n) = True"
| "UUIDFormat_is_native_type v = False"

definition UUIDFormat_validate :: "string \<Rightarrow> error + pyval" where
  "UUIDFormat_validate value =
     (case re_match UUID_REGEX value of
        None \<Rightarrow> Inl (validation_error UUIDFormat_errors ''format'')
      | Some m \<Rightarrow> (case uuid_UUID value of Inl e \<Rightarrow> Inl e | Inr n \<Rightarrow> Inr (PyUUID n)))"

definition UUIDFormat_serialize :: "pyval \<Rightarrow> error + pyval" where
  "UUIDFormat_serialize obj = Inr (PyStr (py_str obj))"

subsection \<open>URLFormat\<close>

definition URLFormat_errors :: "(string \<times> string) list" where
  "URLFormat_errors = [(''format'', ''Must be valid URL format.'')]"

fun URLFormat_is_native_type :: "pyval \<Rightarrow> bool" where
  "URLFormat_is_native_type (PyURL r) = True"
| "URLFormat_is_native_type v = False"

definition URLFormat_validate :: "string \<Rightarrow> error + pyval" where
  "URLFormat_validate value =
     (case re_match URL_REGEX value of
        None \<Rightarrow> Inl (validation_error URLFormat_errors ''format'')
      | Some m \<Rightarrow>
          (let value' = (if \<not> startswith ''http'' value then ''http://'' @ value else value)
           in case urlparse value' of Inl e \<Rightarrow> Inl e | Inr r \<Rightarrow> Inr (PyURL r)))"

fun URLFormat_serialize :: "pyval \<Rightarrow> error + pyval" where
  "URLFormat_serialize PyNone = Inr PyNone"
| "URLFormat_serialize (PyURL r) = Inr (PyStr (geturl r))"
| "URLFormat_serialize v = Inl AssertionError"

subsection \<open>EmailFormat\<close>

definition EmailFormat_errors :: "(string \<times> string) list" where
  "EmailFormat_errors = [(''format'', ''Must be valid Email format.'')]"

fun EmailFormat_is_native_type :: "pyval \<Rightarrow> bool" where
  "EmailFormat_is_native_type (PyURL r) = True"
| "EmailFormat_is_native_type v = False"

definition EmailFormat_validate :: "string \<Rightarrow> error + pyval" where
  "EmailFormat_validate value =
     (case re_match EMAIL_REGEX value of
        None \<Rightarrow> Inl (validation_error EmailFormat_errors ''format'')
      | Some m \<Rightarrow> Inr (PyStr value))"

definition EmailFormat_serialize :: "pyval \<Rightarrow> error + pyval" where
  "EmailFormat_serialize obj = Inr obj"

section \<open>Notions used in the statements and proofs\<close>

text \<open>
  \<open>heads r st x\<close>: the first way in which backtracking matches \<open>r\<close> from \<open>st\<close> ends
  in \<open>x\<close>. \<open>run n st\<close> is \<open>st\<close> after reading \<open>n\<close> characters. \<open>fits Ps s\<close>: the
  string \<open>s\<close> starts with one character of each class of \<open>Ps\<close>, in this order, and a
  pattern is \<open>fixed\<close> for \<open>Ps\<close> when it matches exactly that.
\<close>

definition heads :: "regex \<Rightarrow> mstate \<Rightarrow> mstate \<Rightarrow> bool" where
  "heads r st x \<longleftrightarrow> (\<exists>xs. rmatch r st = x # xs)"

primrec run :: "nat \<Rightarrow> mstate \<Rightarrow> mstate" where
  "run 0 st = st"
| "run (Suc n) st = (case rest st of [] \<Rightarrow> st | c # cs \<Rightarrow> run n (st\<lparr>prev := Some c, rest := cs\<rparr>))"

fun fits :: "(char \<Rightarrow> bool) list \<Rightarrow> string \<Rightarrow> bool" where
  "fits [] s = True"
| "fits (P # Ps) [] = False"
| "fits (P # Ps) (c # cs) = (P c \<and> fits Ps cs)"

definition fixed :: "regex \<Rightarrow> (char \<Rightarrow> bool) list \<Rightarrow> bool" where
  "fixed r Ps \<longleftrightarrow> (\<forall>st. rmatch r st = (if fits Ps (rest st) then [run (length Ps) st] else []))"

text \<open>
  The 8-4-4-4-12 layout of a UUID in the words of the specification, for a class of
  hexadecimal digits and a class of variant nibbles: 36 characters, hyphens after the
  groups, the version nibble \<open>1\<close> to \<open>5\<close> at the head of the third group and the variant
  nibble at the head of the fourth.
\<close>

definition is_dash :: "char \<Rightarrow> bool" where
  "is_dash c \<longleftrightarrow> c = CHR ''-''"

definition uuid_pattern :: "(char \<Rightarrow> bool) \<Rightarrow> (char \<Rightarrow> bool) \<Rightarrow> (char \<Rightarrow> bool) list" where
  "uuid_pattern hex variant =
     replicate 8 hex @ [is_dash] @ replicate 4 hex @ [is_dash]
     @ [version_nibble] @ replicate 3 hex @ [is_dash]
     @ [variant] @ replicate 3 hex @ [is_dash] @ replicate 12 hex"

definition uuid_layout :: "(char \<Rightarrow> bool) \<Rightarrow> (char \<Rightarrow> bool) \<Rightarrow> string \<Rightarrow> bool" where
  "uuid_layout hex variant s \<longleftrightarrow> length s = 36 \<and> fits (uuid_pattern hex variant) s"

definition variant_nibble_any_case :: "char \<Rightarrow> bool" where
  "variant_nibble_any_case c \<longleftrightarrow> variant_nibble c \<or> c = CHR ''A'' \<or> c = CHR ''B''"

text \<open>The value of a string of hexadecimal digits.\<close>

definition hex_value :: "string \<Rightarrow> int" where
  "hex_value v = foldl (\<lambda>a c. 16 * a + hex_val c) 0 v"



definition extend :: "string \<Rightarrow> mstate \<Rightarrow> mstate" where
  "extend t st = st\<lparr>rest := rest st @ t\<rparr>"


text \<open>
  \<open>tz_ok\<close>: the invariant of \<open>datetime.timezone\<close>, an offset strictly between -24 and
  24 hours. \<open>starts P t\<close>: the text \<open>t\<close> begins with a character of the class \<open>P\<close>.
\<close>

definition tz_ok :: "int option \<Rightarrow> bool" where
  "tz_ok tz = (case tz of None \<Rightarrow> True | Some off \<Rightarrow> - 1440 < off \<and> off < 1440)"

definition starts :: "(char \<Rightarrow> bool) \<Rightarrow> string \<Rightarrow> bool" where
  "starts P t = (case t of [] \<Rightarrow> False | c # _ \<Rightarrow> P c)"

text \<open>
  Three facts about a pattern \<open>r\<close> and a text \<open>u\<close>, each for every state that has
  \<open>u\<close> still to read. \<open>leads r u g t g'\<close>: with the groups \<open>g\<close>, the first match of \<open>r\<close>
  leaves \<open>t\<close> and the groups \<open>g'\<close>. \<open>fails r u\<close>: \<open>r\<close> does not match. \<open>only r u t\<close>:
  \<open>r\<close> matches in one way only, leaving \<open>t\<close> and the groups as they are.
\<close>

definition leads ::
  "regex \<Rightarrow> string \<Rightarrow> (string \<times> string) list \<Rightarrow> string \<Rightarrow> (string \<times> string) list \<Rightarrow> bool" where
  "leads r u g t g' \<longleftrightarrow>
     (\<forall>st. rest st = u \<and> groups st = g \<longrightarrow> (\<exists>x xs. rmatch r st = x # xs \<and> rest x = t \<and> groups x = g'))"

definition fails :: "regex \<Rightarrow> string \<Rightarrow> bool" where
  "fails r u \<longleftrightarrow> (\<forall>st. rest st = u \<longrightarrow> rmatch r st = [])"

definition only :: "regex \<Rightarrow> string \<Rightarrow> string \<Rightarrow> bool" where
  "only r u t \<longleftrightarrow> (\<forall>st. rest st = u \<longrightarrow> (\<exists>x. rmatch r st = [x] \<and> rest x = t \<and> groups x = groups st))"

text \<open>
  \<open>tz_text z v\<close>: at the end of a datetime string the text \<open>z\<close> is read as the time
  zone designator \<open>v\<close> (\<open>None\<close> when there is none), and it cannot be taken for more
  digits or a fraction of the time before it.
\<close>

definition tz_groups :: "string option \<Rightarrow> (string \<times> string) list" where
  "tz_groups v = (case v of None \<Rightarrow> [] | Some z \<Rightarrow> [(''tzinfo'', z)])"

definition tz_text :: "string \<Rightarrow> string option \<Rightarrow> bool" where
  "tz_text z v \<longleftrightarrow> \<not> starts is_digit z \<and> \<not> starts (\<lambda>x. x = CHR ''.'') z
     \<and> (\<forall>g. leads (seqs [Opt TZINFO, Eos]) z g [] (tz_groups v @ g))"

definition is_sign :: "char \<Rightarrow> bool" where
  "is_sign c \<longleftrightarrow> c = CHR ''+'' \<or> c = CHR ''-''"

text \<open>
  The offset of a signed designator in the words of the specification, in minutes: the
  sign from the first character, the hours from the two digits after it, the minutes
  from the remaining digits (none: zero).
\<close>

definition offset_of :: "char \<Rightarrow> string \<Rightarrow> string \<Rightarrow> int" where
  "offset_of sg hh mm = (if sg = CHR ''-'' then - 1 else 1) * (60 * py_int hh + py_int mm)"

text \<open>
  \<open>digit_string lo hi v\<close>: the string \<open>v\<close> has between \<open>lo\<close> and \<open>hi\<close> characters, all of
  them decimal digits.
\<close>

definition digit_string :: "nat \<Rightarrow> nat \<Rightarrow> string \<Rightarrow> bool" where
  "digit_string lo hi v \<longleftrightarrow> list_all is_digit v \<and> lo \<le> length v \<and> length v \<le> hi"

text \<open>
  \<open>digit_after c t\<close>: the text \<open>t\<close> begins with the character \<open>c\<close> and a digit.
  \<open>no_lookahead r\<close>: the pattern \<open>r\<close> has no word boundary and no end anchor, so that
  it never looks at the text after the characters it reads.
\<close>

definition digit_after :: "char \<Rightarrow> string \<Rightarrow> bool" where
  "digit_after c t = (case t of x # d # _ \<Rightarrow> x = c \<and> is_digit d | _ \<Rightarrow> False)"

primrec no_lookahead :: "regex \<Rightarrow> bool" where
  "no_lookahead Epsilon = True"
| "no_lookahead (Lit c) = True"
| "no_lookahead (Class P) = True"
| "no_lookahead (Seq a b) = (no_lookahead a \<and> no_lookahead b)"
| "no_lookahead (Alt a b) = (no_lookahead a \<and> no_lookahead b)"
| "no_lookahead (Star a) = no_lookahead a"
| "no_lookahead (Group n a) = no_lookahead a"
| "no_lookahead Wordb = False"
| "no_lookahead Bos = True"
| "no_lookahead Eos = False"

section \<open>Lemmas about characters, strings and the matcher\<close>

subsection \<open>Characters\<close>

lemmas char_class_defs =
  char_code_def in_range_def is_digit_def is_alpha_ascii_def is_space_def is_word_def
  hex_lower_def version_nibble_def variant_nibble_def is_hex_def is_dash_def

lemma hex_lower_not_dash: "hex_lower c \<Longrightarrow> c \<noteq> CHR ''-''"
  by (auto simp: char_class_defs)

lemma hex_lower_not_u: "hex_lower c \<Longrightarrow> c \<noteq> CHR ''u''"
  by (auto simp: char_class_defs)

lemma hex_lower_not_brace: "hex_lower c \<Longrightarrow> c \<noteq> CHR ''{'' \<and> c \<noteq> CHR ''}''"
  by (auto simp: char_class_defs)

lemma hex_lower_is_hex: "hex_lower c \<Longrightarrow> is_hex c"
  by (auto simp: char_class_defs)

lemma version_nibble_hex: "version_nibble c \<Longrightarrow> hex_lower c"
  by (auto simp: char_class_defs)

lemma variant_nibble_hex: "variant_nibble c \<Longrightarrow> hex_lower c"
  by (auto simp: char_class_defs)

subsection \<open>The matcher on patterns of fixed width\<close>

lemma rest_run [simp]: "rest (run n st) = drop n (rest st)"
  by (induction n arbitrary: st) (auto split: list.splits)

lemma groups_run [simp]: "groups (run n st) = groups st"
  by (induction n arbitrary: st) (auto split: list.splits)

lemma run_nil [simp]: "rest st = [] \<Longrightarrow> run n st = st"
  by (cases n) auto

lemma run_add: "run (m + n) st = run n (run m st)"
  by (induction m arbitrary: st) (auto split: list.splits)

lemma fits_append: "fits (Ps @ Qs) s \<longleftrightarrow> fits Ps s \<and> fits Qs (drop (length Ps) s)"
  by (induction Ps s rule: fits.induct) auto

lemma fits_length: "fits Ps s \<Longrightarrow> length Ps \<le> length s"
  by (induction Ps s rule: fits.induct) auto

lemma fits_replicate: "fits (replicate n P) s \<longleftrightarrow> n \<le> length s \<and> list_all P (take n s)"
  by (induction n arbitrary: s) (auto simp: take_Cons' split: list.splits, (case_tac s; simp)+)

lemma fits_take: "fits Ps (take (length Ps) s) \<longleftrightarrow> fits Ps s"
  by (induction Ps s rule: fits.induct) auto

lemma fits_app_left: "fits Ps s \<Longrightarrow> fits Ps (s @ t)"
  by (induction Ps s rule: fits.induct) auto

lemma fixed_Epsilon: "fixed Epsilon []"
  by (simp add: fixed_def)

lemma fixed_Lit: "fixed (Lit c) [\<lambda>x. x = c]"
  by (auto simp: fixed_def split: list.splits)

lemma fixed_Class: "fixed (Class P) [P]"
  by (auto simp: fixed_def split: list.splits)

lemma fixed_Seq:
  assumes "fixed a Ps" and "fixed b Qs"
  shows "fixed (Seq a b) (Ps @ Qs)"
  using assms by (auto simp: fixed_def fits_append run_add)

lemma fixed_times: "fixed r Ps \<Longrightarrow> fixed (times n r) (concat (replicate n Ps))"
  by (induction n) (auto intro: fixed_Epsilon fixed_Seq)

lemma fixed_rep: "fixed r Ps \<Longrightarrow> fixed (rep n n r) (concat (replicate n Ps))"
  using fixed_Seq [OF fixed_times fixed_Epsilon, of r Ps n] by (simp add: rep_def)

lemma fixed_rep_Class: "fixed (rep n n (Class P)) (replicate n P)"
  using fixed_rep [OF fixed_Class, of n P] by (simp add: concat_replicate_single)

lemma fixed_seqs_Cons: "fixed r Ps \<Longrightarrow> fixed (seqs rs) Qs \<Longrightarrow> fixed (seqs (r # rs)) (Ps @ Qs)"
  by (simp add: seqs_def fixed_Seq)

lemma fixed_seqs_Nil: "fixed (seqs []) []"
  by (simp add: seqs_def fixed_Epsilon)

lemma fixed_dash: "fixed (Lit CHR ''-'') [is_dash]"
  using fixed_Lit [of "CHR ''-''"] by (simp add: is_dash_def [abs_def])

lemma fixed_UUID: "fixed UUID_REGEX (uuid_pattern hex_lower variant_nibble)"
proof -
  have "fixed UUID_REGEX (uuid_pattern hex_lower variant_nibble @ [])"
    unfolding UUID_REGEX_def uuid_pattern_def append_assoc
    by (intro fixed_seqs_Cons fixed_seqs_Nil fixed_rep_Class fixed_dash fixed_Class)
  then show ?thesis by simp
qed

lemma re_match_UUID:
  "re_match UUID_REGEX s =
     (if fits (uuid_pattern hex_lower variant_nibble) s then Some (run 36 (start s)) else None)"
  using fixed_UUID by (simp add: fixed_def re_match_def start_def uuid_pattern_def)


subsection \<open>Python string operations\<close>

lemma startswith_append [simp]: "startswith p (p @ s)"
  by (induction p) auto

lemma startswith_iff: "startswith p s \<longleftrightarrow> (\<exists>t. s = p @ t)"
  by (induction p arbitrary: s) (auto split: list.splits)

lemma str_replace_notin: "p \<notin> set u \<Longrightarrow> str_replace (p # ps) new (u @ t) = u @ str_replace (p # ps) new t"
  by (induction u) auto

lemma str_replace_single: "str_replace [c] [] s = filter (\<lambda>x. x \<noteq> c) s"
  by (induction s) auto

lemma str_strip_keep:
  assumes "u \<noteq> []" "hd u \<notin> set cs" "last u \<notin> set cs"
  shows "str_strip cs (u @ t) = u @ str_rstrip cs t"
proof -
  from assms have l: "str_lstrip cs (u @ t) = u @ t"
    by (cases u) (auto simp: str_lstrip_def)
  have "dropWhile (\<lambda>c. c \<in> set cs) (rev u) = rev u"
    using assms by (cases u rule: rev_cases) auto
  then have "str_rstrip cs (u @ t) = u @ str_rstrip cs t"
    using assms by (auto simp: str_rstrip_def dropWhile_append)
  with l show ?thesis by (simp add: str_strip_def)
qed

subsection \<open>Hexadecimal digits\<close>

lemma hex_val_range: "is_hex c \<Longrightarrow> 0 \<le> hex_val c \<and> hex_val c < 16"
  by (auto simp: hex_val_def char_class_defs)

lemma hex_value_snoc: "hex_value (v @ [c]) = 16 * hex_value v + hex_val c"
  by (simp add: hex_value_def)

lemma hex_value_bounds: "list_all is_hex v \<Longrightarrow> 0 \<le> hex_value v \<and> hex_value v < 16 ^ length v"
proof (induction v rule: rev_induct)
  case Nil
  then show ?case by (simp add: hex_value_def)
next
  case (snoc c v)
  then have "0 \<le> hex_value v" "hex_value v + 1 \<le> 16 ^ length v" by auto
  moreover from snoc have "0 \<le> hex_val c" "hex_val c < 16" using hex_val_range by auto
  ultimately show ?case by (simp add: hex_value_snoc)
qed

lemma py_int16_hex: "v \<noteq> [] \<Longrightarrow> list_all is_hex v \<Longrightarrow> py_int16 v = Some (hex_value v)"
  by (simp add: py_int16_def hex_value_def)

lemma hex_char_val: "hex_lower c \<Longrightarrow> hex_char (hex_val c) = c"
proof -
  assume h: "hex_lower c"
  have c: "char_of (of_char c :: int) = c" by simp
  show ?thesis
  proof (cases "is_digit c")
    case True
    then have "hex_val c = of_char c - 48" "hex_val c < 10" "48 \<le> (of_char c :: int)"
      by (auto simp: hex_val_def char_class_defs)
    then show ?thesis using c by (simp add: hex_char_def)
  next
    case False
    with h have "hex_val c = of_char c - 87" "\<not> hex_val c < 10" "97 \<le> (of_char c :: int)"
      by (auto simp: hex_val_def char_class_defs)
    then show ?thesis using c by (simp add: hex_char_def)
  qed
qed

lemma char_of_48: "char_of (48 :: int) = CHR ''0''"
  by code_simp

lemma hex_val_zero: "hex_lower c \<Longrightarrow> hex_val c = 0 \<Longrightarrow> c = CHR ''0''"
  using hex_char_val [of c] by (simp add: hex_char_def char_of_48)

lemma hex_value_zero:
  "list_all hex_lower v \<Longrightarrow> hex_value v = 0 \<Longrightarrow> v = replicate (length v) CHR ''0''"
proof (induction v rule: rev_induct)
  case Nil
  then show ?case by simp
next
  case (snoc c v)
  then have hv: "list_all is_hex v" "is_hex c" "hex_lower c"
    by (auto simp: list_all_iff hex_lower_is_hex)
  have "0 \<le> hex_value v" "0 \<le> hex_val c"
    using hex_value_bounds [OF hv(1)] hex_val_range [OF hv(2)] by auto
  with snoc.prems(2) have z: "hex_value v = 0" "hex_val c = 0"
    by (auto simp: hex_value_snoc)
  with snoc hv have "v = replicate (length v) CHR ''0''" "c = CHR ''0''"
    by (auto simp: hex_val_zero)
  then have "v @ [c] = replicate (length v) CHR ''0'' @ [CHR ''0'']" by simp
  then show ?case by (simp add: replicate_append_same)
qed

lemma zfill_snoc: "zfill (Suc k) (xs @ [c]) = zfill k xs @ [c]"
  by (simp add: zfill_def)

lemma hex_of_int_value:
  "list_all hex_lower v \<Longrightarrow> v \<noteq> [] \<Longrightarrow> zfill (length v) (hex_of_int (hex_value v)) = v"
proof (induction v rule: rev_induct)
  case Nil
  then show ?case by simp
next
  case (snoc c v)
  then have hv: "list_all is_hex v" "is_hex c" "hex_lower c" "list_all hex_lower v"
    by (auto simp: list_all_iff hex_lower_is_hex)
  have r: "0 \<le> hex_value v" "0 \<le> hex_val c" "hex_val c < 16"
    using hex_value_bounds [OF hv(1)] hex_val_range [OF hv(2)] by auto
  show ?case
  proof (cases "hex_value v = 0")
    case True
    then have "v = replicate (length v) CHR ''0''"
      using hex_value_zero hv(4) by blast
    moreover have "hex_of_int (hex_value (v @ [c])) = [c]"
      using True r hv(3) by (simp add: hex_value_snoc hex_char_val)
    ultimately show ?thesis by (simp add: zfill_def)
  next
    case False
    with r have "16 \<le> 16 * hex_value v + hex_val c" by linarith
    then have "hex_of_int (hex_value (v @ [c])) = hex_of_int (hex_value v) @ [c]"
      using r hv(3) by (simp add: hex_value_snoc hex_char_val)
    moreover from False have "v \<noteq> []" by (auto simp: hex_value_def)
    ultimately show ?thesis
      using snoc.IH hv(4) by (simp add: zfill_snoc)
  qed
qed


section \<open>UUIDFormat: the accepted strings\<close>

lemma fits_Cons_iff: "fits (P # Ps) s \<longleftrightarrow> (\<exists>c t. s = c # t \<and> P c \<and> fits Ps t)"
  by (cases s) auto

lemma fits_replicate_append_iff:
  "fits (replicate n P @ Qs) s \<longleftrightarrow> (\<exists>g t. s = g @ t \<and> length g = n \<and> list_all P g \<and> fits Qs t)"
proof
  assume "fits (replicate n P @ Qs) s"
  then have "s = take n s @ drop n s \<and> length (take n s) = n \<and> list_all P (take n s) \<and> fits Qs (drop n s)"
    by (auto simp: fits_append fits_replicate)
  then show "\<exists>g t. s = g @ t \<and> length g = n \<and> list_all P g \<and> fits Qs t" by blast
next
  assume "\<exists>g t. s = g @ t \<and> length g = n \<and> list_all P g \<and> fits Qs t"
  then show "fits (replicate n P @ Qs) s"
    by (auto simp: fits_append fits_replicate)
qed

lemma fits_replicate_iff:
  "fits (replicate n P) s \<longleftrightarrow> (\<exists>g t. s = g @ t \<and> length g = n \<and> list_all P g)"
  using fits_replicate_append_iff [of n P "[]" s] by simp

lemma uuid_decomp:
  assumes "fits (uuid_pattern hex var) s"
  obtains g1 g2 v g3 r g4 g5 t where
    "s = g1 @ CHR ''-'' # g2 @ CHR ''-'' # v # g3 @ CHR ''-'' # r # g4 @ CHR ''-'' # g5 @ t"
    "length g1 = 8" "length g2 = 4" "length g3 = 3" "length g4 = 3" "length g5 = 12"
    "list_all hex g1" "list_all hex g2" "list_all hex g3" "list_all hex g4" "list_all hex g5"
    "version_nibble v" "var r"
  using assms unfolding uuid_pattern_def
  by (auto simp: fits_replicate_append_iff fits_replicate_iff fits_Cons_iff is_dash_def)

lemma uuid_UUID_fits:
  assumes "fits (uuid_pattern hex_lower variant_nibble) s"
  shows "uuid_UUID s =
     (if str_replace ''-'' [] (str_rstrip ''{}'' (str_replace ''uuid:'' []
            (str_replace ''urn:'' [] (drop 36 s)))) = []
      then Inr (hex_value (filter (\<lambda>c. c \<noteq> CHR ''-'') (take 36 s)))
      else Inl ValueError)"
proof -
  from assms obtain g1 g2 v g3 r g4 g5 t where
    s: "s = g1 @ CHR ''-'' # g2 @ CHR ''-'' # v # g3 @ CHR ''-'' # r # g4 @ CHR ''-'' # g5 @ t"
    and len: "length g1 = 8" "length g2 = 4" "length g3 = 3" "length g4 = 3" "length g5 = 12"
    and hex: "list_all hex_lower g1" "list_all hex_lower g2" "list_all hex_lower g3"
      "list_all hex_lower g4" "list_all hex_lower g5" "hex_lower v" "hex_lower r"
    by (rule uuid_decomp) (auto simp: version_nibble_hex variant_nibble_hex)
  define p where "p = g1 @ CHR ''-'' # g2 @ CHR ''-'' # v # g3 @ CHR ''-'' # r # g4 @ CHR ''-'' # g5"
  define h where "h = g1 @ g2 @ v # g3 @ r # g4 @ g5"
  have sp: "s = p @ t" and lp: "length p = 36" by (simp_all add: s p_def len)
  have hl: "list_all hex_lower h" "length h = 32"
    using hex len by (simp_all add: h_def)
  have ph: "filter (\<lambda>c. c \<noteq> CHR ''-'') p = h"
    using hex by (auto simp: p_def h_def list_all_iff hex_lower_not_dash intro!: filter_True)
  have pc: "\<forall>c\<in>set p. hex_lower c \<or> c = CHR ''-''"
    using hex by (auto simp: p_def list_all_iff)
  then have nu: "CHR ''u'' \<notin> set p"
    using hex_lower_not_u by auto
  have "g1 \<noteq> []" "g5 \<noteq> []" using len by auto
  then have "hd p = hd g1" "last p = last g5" "hd g1 \<in> set g1" "last g5 \<in> set g5"
    by (simp_all add: p_def)
  then have ends: "p \<noteq> []" "hd p \<notin> set ''{}''" "last p \<notin> set ''{}''"
    using hex lp hex_lower_not_brace by (auto simp: list_all_iff)
  define t' where "t' = str_rstrip ''{}'' (str_replace ''uuid:'' [] (str_replace ''urn:'' [] t))"
  have "str_strip ''{}'' (str_replace ''uuid:'' [] (str_replace ''urn:'' [] s)) = p @ t'"
    using nu ends by (simp add: sp str_replace_notin str_strip_keep t'_def)
  then have u: "uuid_UUID s =
      (let hex2 = h @ filter (\<lambda>c. c \<noteq> CHR ''-'') t'
       in if length hex2 \<noteq> 32 then Inl ValueError
          else (case py_int16 hex2 of None \<Rightarrow> Inl ValueError
                | Some n \<Rightarrow> if 0 \<le> n \<and> n < 2 ^ 128 then Inr n else Inl ValueError))"
    by (simp add: uuid_UUID_def str_replace_single ph)
  have hh: "list_all is_hex h" "h \<noteq> []"
    using hl by (auto simp: list_all_iff hex_lower_is_hex)
  from hex_value_bounds [OF hh(1)] have "0 \<le> hex_value h" "hex_value h < 2 ^ 128"
    by (simp_all add: hl)
  then have "uuid_UUID s = (if filter (\<lambda>c. c \<noteq> CHR ''-'') t' = [] then Inr (hex_value h) else Inl ValueError)"
    using u hl hh by (simp add: Let_def py_int16_hex)
  then show ?thesis
    by (simp add: sp lp ph t'_def str_replace_single)
qed

lemma uuid_str_value:
  assumes "fits (uuid_pattern hex_lower variant_nibble) s"
  shows "uuid_str (hex_value (filter (\<lambda>c. c \<noteq> CHR ''-'') (take 36 s))) = take 36 s"
proof -
  from assms obtain g1 g2 v g3 r g4 g5 t where
    s: "s = g1 @ CHR ''-'' # g2 @ CHR ''-'' # v # g3 @ CHR ''-'' # r # g4 @ CHR ''-'' # g5 @ t"
    and len: "length g1 = 8" "length g2 = 4" "length g3 = 3" "length g4 = 3" "length g5 = 12"
    and hex: "list_all hex_lower g1" "list_all hex_lower g2" "list_all hex_lower g3"
      "list_all hex_lower g4" "list_all hex_lower g5" "hex_lower v" "hex_lower r"
    by (rule uuid_decomp) (auto simp: version_nibble_hex variant_nibble_hex)
  define h where "h = g1 @ g2 @ v # g3 @ r # g4 @ g5"
  have hl: "list_all hex_lower h" "length h = 32" "h \<noteq> []"
    using hex len by (auto simp: h_def)
  have ph: "filter (\<lambda>c. c \<noteq> CHR ''-'') (take 36 s) = h"
    using hex len by (auto simp: s h_def list_all_iff hex_lower_not_dash intro!: filter_True)
  have "fmt_x 32 (hex_value h) = h"
    using hex_of_int_value [OF hl(1) hl(3)] by (simp add: fmt_x_def hl)
  then show ?thesis
    by (simp add: uuid_str_def ph) (simp add: h_def s len)
qed

text \<open>
  Claim C3, as amended: \<open>UUIDFormat.validate\<close> accepts the 8-4-4-4-12 layout with
  version nibble 1 to 5 and variant nibble 8, 9, a or b only when its hexadecimal digits
  are written in lowercase, and then returns the UUID of those digits; a string of that
  layout with an uppercase digit fails with the code \<open>format\<close>, since \<open>UUID_REGEX\<close> is
  compiled without a case-insensitive flag.
\<close>

theorem UUIDFormat_validate_lowercase_only:
  assumes "uuid_layout is_hex variant_nibble_any_case s"
  shows "UUIDFormat_validate s =
     (if uuid_layout hex_lower variant_nibble s
      then Inr (PyUUID (hex_value (filter (\<lambda>c. c \<noteq> CHR ''-'') s)))
      else Inl (ValidationError ''Must be valid UUID format.'' ''format''))"
proof -
  from assms have l: "length s = 36" by (simp add: uuid_layout_def)
  show ?thesis
  proof (cases "fits (uuid_pattern hex_lower variant_nibble) s")
    case True
    then show ?thesis
      using l by (simp add: UUIDFormat_validate_def re_match_UUID uuid_UUID_fits uuid_layout_def
          str_rstrip_def)
  next
    case False
    then show ?thesis
      using l by (simp add: UUIDFormat_validate_def re_match_UUID uuid_layout_def
          validation_error_def UUIDFormat_errors_def)
  qed
qed

theorem UUIDFormat_validate_lowercase_only_witness:
  "uuid_layout is_hex variant_nibble_any_case ''550e8400-e29b-41d4-a716-446655440000''
   \<and> UUIDFormat_validate ''550e8400-e29b-41d4-a716-446655440000''
       = Inr (PyUUID 113059749145936325402354257176981405696)"
proof -
  have h: "uuid_layout is_hex variant_nibble_any_case ''550e8400-e29b-41d4-a716-446655440000''"
    by code_simp
  have "(if uuid_layout hex_lower variant_nibble ''550e8400-e29b-41d4-a716-446655440000''
      then Inr (PyUUID (hex_value (filter (\<lambda>c. c \<noteq> CHR ''-'') ''550e8400-e29b-41d4-a716-446655440000'')))
      else Inl (ValidationError ''Must be valid UUID format.'' ''format''))
     = Inr (PyUUID 113059749145936325402354257176981405696)"
    by code_simp
  with UUIDFormat_validate_lowercase_only [OF h] h show ?thesis by simp
qed

text \<open>
  The claim as stated fails on an uppercase UUID: it has the layout, and \<open>validate\<close>
  rejects it.
\<close>

theorem UUIDFormat_validate_uppercase_counterexample:
  "uuid_layout is_hex variant_nibble_any_case ''550E8400-E29B-41D4-A716-446655440000''
   \<and> UUIDFormat_validate ''550E8400-E29B-41D4-A716-446655440000''
       = Inl (ValidationError ''Must be valid UUID format.'' ''format'')"
  by code_simp

text \<open>
  Claim C4: for every string, \<open>UUIDFormat.validate\<close> returns a UUID or fails with a
  \<open>ValidationError\<close> of code \<open>format\<close>. \<open>UUID_REGEX\<close> has no end anchor, so text after
  a UUID passes the match and reaches \<open>uuid.UUID\<close>, whose \<open>ValueError\<close> nothing catches.
\<close>

theorem UUIDFormat_validate_trailing_text:
  "UUIDFormat_validate ''550e8400-e29b-41d4-a716-446655440000garbage'' = Inl ValueError"
  by code_simp

section \<open>Serializing \<open>None\<close>\<close>

text \<open>
  Claim C2: for each of the six converters, \<open>serialize(None)\<close> returns \<open>None\<close>.
  \<open>UUIDFormat.serialize\<close> has no guard for \<open>None\<close> and returns \<open>str(None)\<close>, the
  four-character string \<open>None\<close>; the other five converters return \<open>None\<close>.
\<close>

theorem UUIDFormat_serialize_None:
  "UUIDFormat_serialize PyNone = Inr (PyStr ''None'')
   \<and> DateFormat_serialize PyNone = Inr PyNone
   \<and> TimeFormat_serialize PyNone = Inr PyNone
   \<and> DateTimeFormat_serialize PyNone = Inr PyNone
   \<and> URLFormat_serialize PyNone = Inr PyNone
   \<and> EmailFormat_serialize PyNone = Inr PyNone"
  by (simp add: UUIDFormat_serialize_def EmailFormat_serialize_def)

section \<open>Native types\<close>

text \<open>
  Claim C6: \<open>is_native_type\<close> is true exactly on the converter's native values, so that
  \<open>EmailFormat.is_native_type\<close> is true on the strings \<open>EmailFormat.validate\<close> returns.
  \<open>EmailFormat.is_native_type\<close> tests for a \<open>ParseResult\<close>, as \<open>URLFormat\<close> does: it is
  false on a validated address and true on a parsed URL.
\<close>

theorem EmailFormat_is_native_type_ParseResult:
  "EmailFormat_validate ''a@b.com'' = Inr (PyStr ''a@b.com'')
   \<and> EmailFormat_is_native_type (PyStr ''a@b.com'') = False
   \<and> URLFormat_validate ''example.com''
       = Inr (PyURL \<lparr>scheme = ''http'', netloc = ''example.com'', path = [], params = [],
                       query = [], fragment = []\<rparr>)
   \<and> EmailFormat_is_native_type
         (PyURL \<lparr>scheme = ''http'', netloc = ''example.com'', path = [], params = [],
                  query = [], fragment = []\<rparr>) = True"
  by code_simp

section \<open>URLFormat: where the pattern is matched\<close>

lemma set_rmatch_Star:
  "set (rmatch (Star a) st) =
     insert st (\<Union>y \<in> {y \<in> set (rmatch a st). length (rest y) < length (rest st)}. set (rmatch (Star a) y))"
  by (subst rmatch.simps) auto











section \<open>Decimal digits\<close>

lemma digit_char_props:
  assumes "0 \<le> n" "n < 10"
  shows "is_digit (digit_char n)" "digit_val (digit_char n) = n"
proof -
  have "of_char (char_of (48 + n)) = (48 + n) mod 256" by (rule of_char_of)
  with assms have "of_char (char_of (48 + n)) = 48 + n" by simp
  then show "is_digit (digit_char n)" "digit_val (digit_char n) = n"
    using assms by (simp_all add: digit_char_def digit_val_def char_class_defs)
qed

lemma py_int_snoc: "py_int (v @ [c]) = 10 * py_int v + digit_val c"
  by (simp add: py_int_def)

lemma py_int_Nil [simp]: "py_int [] = 0"
  by (simp add: py_int_def)

lemma digit_val_zero [simp]: "digit_val CHR ''0'' = 0"
  by (simp add: digit_val_def char_code_def)

lemma is_digit_zero [simp]: "is_digit CHR ''0''"
  by (simp add: char_class_defs)

lemma py_int_zeros: "py_int (replicate k CHR ''0'' @ v) = py_int v"
proof -
  have "foldl (\<lambda>a c. 10 * a + digit_val c) 0 (replicate k CHR ''0'') = 0"
    by (induction k) simp_all
  then show ?thesis by (simp add: py_int_def)
qed

lemma dec_of_int_props:
  "0 \<le> n \<Longrightarrow> list_all is_digit (dec_of_int n) \<and> py_int (dec_of_int n) = n \<and> dec_of_int n \<noteq> []"
proof (induction n rule: dec_of_int.induct)
  case (1 n)
  show ?case
  proof (cases "n < 10")
    case True
    with 1 show ?thesis
      by (subst (1 2 3) dec_of_int.simps) (simp add: digit_char_props py_int_def)
  next
    case False
    with 1 have "list_all is_digit (dec_of_int (n div 10))" "py_int (dec_of_int (n div 10)) = n div 10"
      by auto
    moreover have "is_digit (digit_char (n mod 10))" "digit_val (digit_char (n mod 10)) = n mod 10"
      by (simp_all add: digit_char_props)
    ultimately show ?thesis
      using False by (subst (1 2 3) dec_of_int.simps) (simp add: py_int_snoc)
  qed
qed

lemma dec_of_int_length: "0 \<le> n \<Longrightarrow> n < 10 ^ k \<Longrightarrow> 0 < k \<Longrightarrow> length (dec_of_int n) \<le> k"
proof (induction n arbitrary: k rule: dec_of_int.induct)
  case (1 n)
  show ?case
  proof (cases "n < 10")
    case True
    with 1 show ?thesis by (subst dec_of_int.simps) simp
  next
    case False
    with "1.prems" obtain j where k: "k = Suc j" "0 < j"
      by (cases k; cases "k - 1") auto
    define x :: int where "x = 10 ^ j"
    from "1.prems" k have "n < 10 * x" by (simp add: x_def)
    then have "n div 10 < x" by linarith
    then have "n div 10 < 10 ^ j" by (simp add: x_def)
    with 1 False k have "length (dec_of_int (n div 10)) \<le> j" by auto
    with False k show ?thesis by (subst dec_of_int.simps) simp
  qed
qed

lemma fmt_d_props:
  assumes "0 \<le> n" "n < 10 ^ k" "0 < k"
  shows "length (fmt_d k n) = k" "list_all is_digit (fmt_d k n)" "py_int (fmt_d k n) = n"
  using assms dec_of_int_props [of n] dec_of_int_length [of n k]
  by (auto simp: fmt_d_def zfill_def py_int_zeros list_all_iff)

lemma fmt_d_chars: "c \<in> set (fmt_d k n) \<Longrightarrow> is_digit c \<or> c = CHR ''-''"
  using dec_of_int_props [of n] dec_of_int_props [of "- n"]
  by (auto simp: fmt_d_def zfill_def list_all_iff split: if_splits)


section \<open>DateTimeFormat: serialization\<close>

lemma endswith_iff: "endswith p s \<longleftrightarrow> (\<exists>t. s = t @ p)"
proof -
  have "(\<exists>t. rev s = rev p @ t) \<longleftrightarrow> (\<exists>t. s = t @ p)"
  proof
    assume "\<exists>t. rev s = rev p @ t"
    then obtain t where "rev s = rev p @ t" ..
    then have "s = rev t @ p" by (metis rev_append rev_rev_ident)
    then show "\<exists>t. s = t @ p" ..
  next
    assume "\<exists>t. s = t @ p"
    then obtain t where "s = t @ p" ..
    then have "rev s = rev p @ rev t" by simp
    then show "\<exists>t. rev s = rev p @ t" ..
  qed
  then show ?thesis by (simp add: endswith_def startswith_iff)
qed

lemma endswith_same_length: "length q = length p \<Longrightarrow> endswith p (x @ q) \<longleftrightarrow> q = p"
  by (auto simp: endswith_iff append_eq_append_conv)

lemma endswith_set: "endswith p s \<Longrightarrow> set p \<subseteq> set s"
  by (auto simp: endswith_iff)

lemma plus_not_digit: "\<not> is_digit CHR ''+''"
  by (simp add: char_class_defs)

lemma plus_notin_fmt_d: "CHR ''+'' \<notin> set (fmt_d k n)"
  using fmt_d_chars [of "CHR ''+''" k n] plus_not_digit by auto

lemma plus_notin_naive:
  "CHR ''+'' \<notin> set (datetime_isoformat sep (DateTime y mo d h mi s us None))" if "sep \<noteq> CHR ''+''"
  using that by (simp add: hms_isoformat_def format_offset_def plus_notin_fmt_d)

lemma fmt_d_2_zero:
  assumes "0 \<le> n" "n < 100"
  shows "fmt_d 2 n = ''00'' \<longleftrightarrow> n = 0"
proof
  assume "fmt_d 2 n = ''00''"
  moreover have "py_int (fmt_d 2 n) = n" using assms by (intro fmt_d_props) simp_all
  ultimately show "n = 0" by (simp add: py_int_def)
next
  assume "n = 0"
  then show "fmt_d 2 n = ''00''"
    by (simp add: fmt_d_def zfill_def dec_of_int.simps digit_char_def) code_simp
qed

lemma format_offset_props:
  assumes "- 1440 < off" "off < 1440"
  shows "length (format_offset (Some off)) = 6"
    and "format_offset (Some off) = ''+00:00'' \<longleftrightarrow> off = 0"
proof -
  have r: "0 \<le> \<bar>off\<bar> div 60" "\<bar>off\<bar> div 60 < 100" "0 \<le> \<bar>off\<bar> mod 60" "\<bar>off\<bar> mod 60 < 100"
    using assms by auto
  then have l: "length (fmt_d 2 (\<bar>off\<bar> div 60)) = 2" "length (fmt_d 2 (\<bar>off\<bar> mod 60)) = 2"
    by (simp_all add: fmt_d_props)
  then show "length (format_offset (Some off)) = 6"
    by (simp add: format_offset_def)
  have "format_offset (Some off) = ''+00:00'' \<longleftrightarrow>
      \<not> off < 0 \<and> fmt_d 2 (\<bar>off\<bar> div 60) = ''00'' \<and> fmt_d 2 (\<bar>off\<bar> mod 60) = ''00''"
    using l by (auto simp: format_offset_def append_eq_Cons_conv Cons_eq_append_conv)
  also have "\<dots> \<longleftrightarrow> \<not> off < 0 \<and> \<bar>off\<bar> div 60 = 0 \<and> \<bar>off\<bar> mod 60 = 0"
    using r by (simp add: fmt_d_2_zero)
  also have "\<dots> \<longleftrightarrow> off = 0" by auto
  finally show "format_offset (Some off) = ''+00:00'' \<longleftrightarrow> off = 0" .
qed

lemma datetime_isoformat_split:
  "datetime_isoformat sep (DateTime y mo d h mi s us tz) =
     datetime_isoformat sep (DateTime y mo d h mi s us None) @ format_offset tz"
  by (simp add: format_offset_def)

lemma endswith_isoformat:
  assumes "tz_ok tz"
  shows "endswith ''+00:00'' (datetime_isoformat CHR ''T'' (DateTime y mo d h mi s us tz)) \<longleftrightarrow> tz = Some 0"
proof (cases tz)
  case None
  have "CHR ''+'' \<notin> set (datetime_isoformat CHR ''T'' (DateTime y mo d h mi s us None))"
    by (rule plus_notin_naive) simp
  then have "\<not> endswith ''+00:00'' (datetime_isoformat CHR ''T'' (DateTime y mo d h mi s us None))"
    using endswith_set by fastforce
  with None show ?thesis by simp
next
  case (Some off)
  with assms have r: "- 1440 < off" "off < 1440" by (simp_all add: tz_ok_def)
  define n where "n = datetime_isoformat CHR ''T'' (DateTime y mo d h mi s us None)"
  have "datetime_isoformat CHR ''T'' (DateTime y mo d h mi s us tz) = n @ format_offset (Some off)"
    unfolding n_def Some by (rule datetime_isoformat_split)
  moreover have "endswith ''+00:00'' (n @ format_offset (Some off)) \<longleftrightarrow> format_offset (Some off) = ''+00:00''"
    using format_offset_props(1) [OF r] by (intro endswith_same_length) simp
  ultimately show ?thesis
    using format_offset_props(2) [OF r] Some by (simp del: datetime_isoformat.simps)
qed

text \<open>
  Claim C9: \<open>DateTimeFormat.serialize\<close> returns the ISO 8601 string of the datetime,
  with a final \<open>+00:00\<close> rewritten to \<open>Z\<close>. For a datetime whose time zone keeps the
  invariant of \<open>datetime.timezone\<close> the rendered string ends in \<open>+00:00\<close> exactly when
  the offset is zero, and then the result is the string of the naive datetime followed
  by \<open>Z\<close>; otherwise it is the ISO string unchanged. The parse of
  \<open>2021-06-01T12:00:00Z\<close> serializes to the same string.
\<close>

theorem DateTimeFormat_serialize_utc:
  assumes "tz_ok tz"
  shows "DateTimeFormat_serialize (PyDateTime (DateTime y mo d h mi s us tz)) =
           Inr (PyStr (if endswith ''+00:00'' (datetime_isoformat CHR ''T'' (DateTime y mo d h mi s us tz))
                       then datetime_isoformat CHR ''T'' (DateTime y mo d h mi s us None) @ ''Z''
                       else datetime_isoformat CHR ''T'' (DateTime y mo d h mi s us tz)))
         \<and> (endswith ''+00:00'' (datetime_isoformat CHR ''T'' (DateTime y mo d h mi s us tz)) \<longleftrightarrow> tz = Some 0)
         \<and> DateTimeFormat_validate ''2021-06-01T12:00:00Z''
             = Inr (PyDateTime (DateTime 2021 6 1 12 0 0 0 (Some 0)))
         \<and> DateTimeFormat_serialize (PyDateTime (DateTime 2021 6 1 12 0 0 0 (Some 0)))
             = Inr (PyStr ''2021-06-01T12:00:00Z'')"
proof -
  let ?v = "datetime_isoformat CHR ''T'' (DateTime y mo d h mi s us tz)"
  have e: "endswith ''+00:00'' ?v \<longleftrightarrow> tz = Some 0"
    by (rule endswith_isoformat [OF assms])
  have "take (length ?v - 6) ?v = datetime_isoformat CHR ''T'' (DateTime y mo d h mi s us None)"
    if "tz = Some 0"
  proof -
    define n where "n = datetime_isoformat CHR ''T'' (DateTime y mo d h mi s us None)"
    have "length (format_offset (Some 0)) = 6" by (rule format_offset_props) simp_all
    moreover have "?v = n @ format_offset (Some 0)"
      unfolding n_def that by (rule datetime_isoformat_split)
    ultimately show ?thesis
      unfolding n_def [symmetric] by (simp del: datetime_isoformat.simps)
  qed
  with e have "DateTimeFormat_serialize (PyDateTime (DateTime y mo d h mi s us tz)) =
           Inr (PyStr (if endswith ''+00:00'' ?v
                       then datetime_isoformat CHR ''T'' (DateTime y mo d h mi s us None) @ ''Z''
                       else ?v))"
    by (simp add: Let_def del: datetime_isoformat.simps)
  moreover have "DateTimeFormat_validate ''2021-06-01T12:00:00Z''
             = Inr (PyDateTime (DateTime 2021 6 1 12 0 0 0 (Some 0)))"
    by code_simp
  moreover have "DateTimeFormat_serialize (PyDateTime (DateTime 2021 6 1 12 0 0 0 (Some 0)))
             = Inr (PyStr ''2021-06-01T12:00:00Z'')"
    by code_simp
  ultimately show ?thesis using e by simp
qed

theorem DateTimeFormat_serialize_utc_witness:
  "tz_ok (Some 330)
   \<and> DateTimeFormat_serialize (PyDateTime (DateTime 2021 6 1 12 0 0 0 (Some 330)))
       = Inr (PyStr ''2021-06-01T12:00:00+05:30'')"
proof -
  have h: "tz_ok (Some 330)" by (simp add: tz_ok_def)
  have "(if endswith ''+00:00'' (datetime_isoformat CHR ''T'' (DateTime 2021 6 1 12 0 0 0 (Some 330)))
         then datetime_isoformat CHR ''T'' (DateTime 2021 6 1 12 0 0 0 None) @ ''Z''
         else datetime_isoformat CHR ''T'' (DateTime 2021 6 1 12 0 0 0 (Some 330)))
        = ''2021-06-01T12:00:00+05:30''"
    by code_simp
  with DateTimeFormat_serialize_utc [OF h, of 2021 6 1 12 0 0 0] h show ?thesis
    by (simp del: datetime_isoformat.simps)
qed

section \<open>The first match of a pattern\<close>

lemma leads_Epsilon: "leads Epsilon u g u g"
  by (simp add: leads_def)

lemma leads_Lit: "leads (Lit c) (c # t) g t g"
  by (simp add: leads_def)

lemma leads_Class: "P c \<Longrightarrow> leads (Class P) (c # t) g t g"
  by (simp add: leads_def)

lemma leads_Seq:
  assumes "leads a u g v g1" and "leads b v g1 t g2"
  shows "leads (Seq a b) u g t g2"
  unfolding leads_def
proof (intro allI impI)
  fix st :: mstate assume st: "rest st = u \<and> groups st = g"
  with assms(1) obtain y ys where y: "rmatch a st = y # ys" "rest y = v" "groups y = g1"
    unfolding leads_def by blast
  with assms(2) obtain x xs where x: "rmatch b y = x # xs" "rest x = t" "groups x = g2"
    unfolding leads_def by blast
  from y x have "rmatch (Seq a b) st = x # (xs @ concat (map (rmatch b) ys))" by simp
  with x show "\<exists>x xs. rmatch (Seq a b) st = x # xs \<and> rest x = t \<and> groups x = g2" by blast
qed

lemma leads_Alt1: "leads a u g t g' \<Longrightarrow> leads (Alt a b) u g t g'"
  by (fastforce simp: leads_def)

lemma leads_Alt2: "fails a u \<Longrightarrow> leads b u g t g' \<Longrightarrow> leads (Alt a b) u g t g'"
  by (simp add: leads_def fails_def)

lemma leads_Opt1: "leads r u g t g' \<Longrightarrow> leads (Opt r) u g t g'"
  by (simp add: Opt_def leads_Alt1)

lemma leads_Opt2: "fails r u \<Longrightarrow> leads (Opt r) u g u g"
  by (simp add: Opt_def leads_Alt2 leads_Epsilon)

lemma leads_Group: "leads a (w @ t) g t g \<Longrightarrow> leads (Group n a) (w @ t) g t ((n, w) # g)"
  by (fastforce simp: leads_def)

lemma leads_Eos: "u = [] \<or> u = [CHR 0x0A] \<Longrightarrow> leads Eos u g u g"
  by (auto simp: leads_def)

lemma leads_seqs_Nil: "leads (seqs []) u g u g"
  by (simp add: seqs_def leads_Epsilon)

lemma leads_seqs_Cons:
  "leads r u g v g1 \<Longrightarrow> leads (seqs rs) v g1 t g2 \<Longrightarrow> leads (seqs (r # rs)) u g t g2"
  by (simp add: seqs_def leads_Seq)

lemma concat_map_nested:
  "concat (map f (concat (map g xs))) = concat (map (\<lambda>y. concat (map f (g y))) xs)"
  by (induction xs) simp_all

lemma rmatch_seqs_append:
  "rmatch (seqs (rs @ rs')) st = rmatch (Seq (seqs rs) (seqs rs')) st"
proof (induction rs arbitrary: st)
  case Nil
  then show ?case by (simp add: seqs_def)
next
  case (Cons r rs)
  have "rmatch (seqs ((r # rs) @ rs')) st = concat (map (rmatch (seqs (rs @ rs'))) (rmatch r st))"
    by (simp add: seqs_def)
  also have "\<dots> = concat (map (\<lambda>y. concat (map (rmatch (seqs rs')) (rmatch (seqs rs) y))) (rmatch r st))"
  proof -
    have "rmatch (seqs (rs @ rs')) = (\<lambda>y. concat (map (rmatch (seqs rs')) (rmatch (seqs rs) y)))"
      by (rule ext) (simp add: Cons)
    then show ?thesis by simp
  qed
  also have "\<dots> = rmatch (Seq (seqs (r # rs)) (seqs rs')) st"
    by (simp add: seqs_def concat_map_nested)
  finally show ?case .
qed

lemma leads_seqs_append:
  "leads (seqs rs) u g v g1 \<Longrightarrow> leads (seqs rs') v g1 t g2 \<Longrightarrow> leads (seqs (rs @ rs')) u g t g2"
  using leads_Seq [of "seqs rs" u g v g1 "seqs rs'" t g2]
  by (simp add: leads_def rmatch_seqs_append)

lemma leads_re_match:
  "leads r s [] t g \<Longrightarrow> \<exists>m. re_match r s = Some m \<and> rest m = t \<and> groups m = g"
proof -
  assume "leads r s [] t g"
  moreover have "rest (start s) = s \<and> groups (start s) = []" by (simp add: start_def)
  ultimately obtain x xs where "rmatch r (start s) = x # xs" "rest x = t" "groups x = g"
    unfolding leads_def by blast
  then show ?thesis by (simp add: re_match_def)
qed

subsection \<open>Patterns that do not match\<close>

lemma fails_Lit: "\<not> starts (\<lambda>x. x = c) u \<Longrightarrow> fails (Lit c) u"
  by (auto simp: fails_def starts_def split: list.splits)

lemma fails_Class: "\<not> starts P u \<Longrightarrow> fails (Class P) u"
  by (auto simp: fails_def starts_def split: list.splits)

lemma fails_Seq1: "fails a u \<Longrightarrow> fails (Seq a b) u"
  by (simp add: fails_def)

lemma fails_Seq2: "only a u v \<Longrightarrow> fails b v \<Longrightarrow> fails (Seq a b) u"
  by (fastforce simp: fails_def only_def)

lemma fails_Alt: "fails a u \<Longrightarrow> fails b u \<Longrightarrow> fails (Alt a b) u"
  by (simp add: fails_def)

lemma fails_Group: "fails a u \<Longrightarrow> fails (Group n a) u"
  by (simp add: fails_def)

lemma fails_seqs_Cons1: "fails r u \<Longrightarrow> fails (seqs (r # rs)) u"
  by (simp add: seqs_def fails_Seq1)

lemma fails_seqs_Cons2: "only r u v \<Longrightarrow> fails (seqs rs) v \<Longrightarrow> fails (seqs (r # rs)) u"
  by (simp add: seqs_def fails_Seq2)

lemma only_Lit: "only (Lit c) (c # t) t"
  by (simp add: only_def)

lemma only_Class: "P c \<Longrightarrow> only (Class P) (c # t) t"
  by (simp add: only_def)


lemma only_Seq: "only a u v \<Longrightarrow> only b v t \<Longrightarrow> only (Seq a b) u t"
  by (fastforce simp: only_def)

subsection \<open>Runs of one class\<close>

lemma rmatch_times_Class:
  "rmatch (times n (Class P)) st = (if fits (replicate n P) (rest st) then [run n st] else [])"
  using fixed_times [OF fixed_Class, of n P] by (simp add: fixed_def concat_replicate_single)

lemma only_times:
  assumes "list_all P w"
  shows "only (times (length w) (Class P)) (w @ t) t"
  using assms by (simp add: only_def rmatch_times_Class fits_replicate)

lemma fails_times: "0 < n \<Longrightarrow> \<not> starts P u \<Longrightarrow> fails (times n (Class P)) u"
  by (cases n; cases u) (auto simp: fails_def starts_def)

lemma leads_upto:
  assumes "list_all P w" "length w \<le> k" "length w = k \<or> \<not> starts P t"
  shows "leads (upto k (Class P)) (w @ t) g t g"
  using assms
proof (induction k arbitrary: w)
  case 0
  then show ?case by (simp add: leads_Epsilon)
next
  case (Suc k)
  show ?case
  proof (cases w)
    case Nil
    with Suc.prems have "\<not> starts P t" by simp
    then have "fails (Seq (Class P) (upto k (Class P))) t"
      by (intro fails_Seq1 fails_Class)
    then show ?thesis using Nil by (simp add: leads_Opt2)
  next
    case (Cons c w')
    with Suc.prems have "P c" "list_all P w'" "length w' \<le> k" "length w' = k \<or> \<not> starts P t"
      by auto
    then have "leads (Class P) (c # w' @ t) g (w' @ t) g" "leads (upto k (Class P)) (w' @ t) g t g"
      using Suc.IH by (auto intro: leads_Class)
    then show ?thesis using Cons by (auto intro: leads_Opt1 leads_Seq)
  qed
qed

lemma leads_rep:
  assumes "list_all P w" "lo \<le> length w" "length w \<le> hi" "length w = hi \<or> \<not> starts P t"
  shows "leads (rep lo hi (Class P)) (w @ t) g t g"
proof -
  define w1 w2 where "w1 = take lo w" and "w2 = drop lo w"
  have w: "w = w1 @ w2" "length w1 = lo" "list_all P w1" "list_all P w2"
    "length w2 \<le> hi - lo" "length w2 = hi - lo \<or> \<not> starts P t"
    using assms by (auto simp: w1_def w2_def list_all_iff dest: in_set_takeD in_set_dropD)
  have "only (times lo (Class P)) (w1 @ w2 @ t) (w2 @ t)"
    using only_times [OF w(3), of "w2 @ t"] w(2) by simp
  then have "leads (times lo (Class P)) (w1 @ w2 @ t) g (w2 @ t) g"
    by (fastforce simp: only_def leads_def)
  moreover have "leads (upto (hi - lo) (Class P)) (w2 @ t) g t g"
    using w by (intro leads_upto) auto
  ultimately show ?thesis
    unfolding rep_def using w(1) by (auto intro: leads_Seq)
qed

lemma fails_rep: "0 < lo \<Longrightarrow> \<not> starts P u \<Longrightarrow> fails (rep lo hi (Class P)) u"
  by (simp add: rep_def fails_Seq1 fails_times)

lemma leads_digits:
  assumes "list_all is_digit w" "lo \<le> length w" "length w \<le> hi" "length w = hi \<or> \<not> starts is_digit t"
  shows "leads (Group n (rep lo hi digit)) (w @ t) g t ((n, w) # g)"
  unfolding digit_def by (intro leads_Group leads_rep assms)

section \<open>The date and time patterns on well-formed strings\<close>

lemma not_digit_chars [simp]:
  "\<not> is_digit CHR ''-''" "\<not> is_digit CHR '':''" "\<not> is_digit CHR ''.''" "\<not> is_digit CHR ''T''"
  "\<not> is_digit CHR '' ''" "\<not> is_digit CHR ''Z''" "\<not> is_digit CHR ''+''" "\<not> is_digit CHR 0x0A"
  by (simp_all add: char_class_defs)

lemma starts_simps [simp]:
  "starts P [] = False" "starts P (c # t) = P c"
  by (simp_all add: starts_def)

lemma leads_DATE:
  assumes "list_all is_digit dy" "length dy = 4"
    and "list_all is_digit dm" "1 \<le> length dm" "length dm \<le> 2"
    and "list_all is_digit dd" "1 \<le> length dd" "length dd \<le> 2"
    and "e = [] \<or> e = [CHR 0x0A]"
  shows "leads DATE_REGEX (dy @ CHR ''-'' # dm @ CHR ''-'' # dd @ e) []
           e [(''day'', dd), (''month'', dm), (''year'', dy)]"
  unfolding DATE_REGEX_def
  apply (rule leads_seqs_Cons [OF leads_digits])
  using assms apply simp_all
  apply (rule leads_seqs_Cons [OF leads_Lit])
  apply (rule leads_seqs_Cons [OF leads_digits])
  apply simp_all
  apply (rule leads_seqs_Cons [OF leads_Lit])
  apply (rule leads_seqs_Cons [OF leads_digits])
  apply (auto)[4]
  apply (rule leads_seqs_Cons [OF leads_Eos leads_seqs_Nil])
  apply simp
  done


lemma fails_fraction:
  "\<not> starts (\<lambda>x. x = CHR ''.'') t \<Longrightarrow>
   fails (seqs [Lit CHR ''.'', Group ''microsecond'' (rep 1 6 digit), rep 0 6 digit]) t"
  by (intro fails_seqs_Cons1 fails_Lit)

lemma fails_seconds:
  "\<not> starts (\<lambda>x. x = CHR '':'') t \<Longrightarrow>
   fails (seqs [Lit CHR '':'', Group ''second'' (rep 1 2 digit),
                Opt (seqs [Lit CHR ''.'', Group ''microsecond'' (rep 1 6 digit), rep 0 6 digit])]) t"
  by (intro fails_seqs_Cons1 fails_Lit)

lemma take_drop_12: "f = take 6 f @ take 6 (drop 6 f) @ drop 12 f"
proof -
  have "drop 6 (drop 6 f) = drop 12 f" by simp
  then show ?thesis by (metis append_take_drop_id)
qed

lemma leads_fraction:
  assumes "list_all is_digit f" "f \<noteq> []" "\<not> starts is_digit t"
  shows "leads (seqs [Lit CHR ''.'', Group ''microsecond'' (rep 1 6 digit), rep 0 6 digit])
           (CHR ''.'' # f @ t) g (drop 12 f @ t) ((''microsecond'', take 6 f) # g)"
proof -
  define f1 f2 f3 where "f1 = take 6 f" and "f2 = take 6 (drop 6 f)" and "f3 = drop 12 f"
  have f: "f = f1 @ f2 @ f3"
    unfolding f1_def f2_def f3_def by (rule take_drop_12)
  have d: "list_all is_digit f1" "list_all is_digit f2"
    using assms(1) by (auto simp: f1_def f2_def list_all_iff dest: in_set_takeD in_set_dropD)
  have l1: "1 \<le> length f1" "length f1 \<le> 6" "length f1 = 6 \<or> \<not> starts is_digit (f2 @ f3 @ t)"
    using assms by (cases f; auto simp: f1_def f2_def f3_def)+
  have l2: "length f2 \<le> 6" "length f2 = 6 \<or> \<not> starts is_digit (f3 @ t)"
    using assms by (auto simp: f2_def f3_def)
  have a: "leads (Group ''microsecond'' (rep 1 6 digit)) (f1 @ f2 @ f3 @ t) g (f2 @ f3 @ t)
             ((''microsecond'', f1) # g)"
    using d l1 by (intro leads_digits) auto
  have b: "leads (rep 0 6 digit) (f2 @ f3 @ t) ((''microsecond'', f1) # g) (f3 @ t)
             ((''microsecond'', f1) # g)"
    unfolding digit_def using d l2 by (intro leads_rep) auto
  have e: "CHR ''.'' # f1 @ f2 @ f3 @ t = CHR ''.'' # f @ t"
    using f by (metis append_assoc)
  have "leads (seqs [Lit CHR ''.'', Group ''microsecond'' (rep 1 6 digit), rep 0 6 digit])
           (CHR ''.'' # f1 @ f2 @ f3 @ t) g (f3 @ t) ((''microsecond'', f1) # g)"
    apply (rule leads_seqs_Cons [OF leads_Lit])
    apply (rule leads_seqs_Cons [OF a])
    apply (rule leads_seqs_Cons [OF b])
    apply (rule leads_seqs_Nil)
    done
  then have "leads (seqs [Lit CHR ''.'', Group ''microsecond'' (rep 1 6 digit), rep 0 6 digit])
           (CHR ''.'' # f @ t) g (f3 @ t) ((''microsecond'', f1) # g)"
    by (simp only: e)
  then show ?thesis by (simp only: f1_def f3_def)
qed

lemma leads_TIME_minutes:
  assumes "list_all is_digit dh" "1 \<le> length dh" "length dh \<le> 2"
    and "list_all is_digit dm" "1 \<le> length dm" "length dm \<le> 2"
    and "\<not> starts is_digit t" "\<not> starts (\<lambda>x. x = CHR '':'') t"
  shows "leads (seqs TIME_PARTS) (dh @ CHR '':'' # dm @ t) g
           t ((''minute'', dm) # (''hour'', dh) # g)"
proof -
  have h: "leads (Group ''hour'' (rep 1 2 digit)) (dh @ CHR '':'' # dm @ t) g (CHR '':'' # dm @ t)
             ((''hour'', dh) # g)"
    using assms by (intro leads_digits) auto
  have m: "leads (Group ''minute'' (rep 1 2 digit)) (dm @ t) ((''hour'', dh) # g) t
             ((''minute'', dm) # (''hour'', dh) # g)"
    using assms by (intro leads_digits) auto
  show ?thesis
    unfolding TIME_PARTS_def
    apply (rule leads_seqs_Cons [OF h])
    apply (rule leads_seqs_Cons [OF leads_Lit])
    apply (rule leads_seqs_Cons [OF m])
    apply (rule leads_seqs_Cons [OF leads_Opt2 [OF fails_seconds]])
     apply (rule assms)
    apply (rule leads_seqs_Nil)
    done
qed

lemma leads_TIME_seconds:
  assumes "list_all is_digit dh" "1 \<le> length dh" "length dh \<le> 2"
    and "list_all is_digit dm" "1 \<le> length dm" "length dm \<le> 2"
    and "list_all is_digit ds" "1 \<le> length ds" "length ds \<le> 2"
    and "\<not> starts is_digit t" "\<not> starts (\<lambda>x. x = CHR ''.'') t"
  shows "leads (seqs TIME_PARTS) (dh @ CHR '':'' # dm @ CHR '':'' # ds @ t) g
           t ((''second'', ds) # (''minute'', dm) # (''hour'', dh) # g)"
proof -
  have h: "leads (Group ''hour'' (rep 1 2 digit)) (dh @ CHR '':'' # dm @ CHR '':'' # ds @ t) g
             (CHR '':'' # dm @ CHR '':'' # ds @ t) ((''hour'', dh) # g)"
    using assms by (intro leads_digits) auto
  have m: "leads (Group ''minute'' (rep 1 2 digit)) (dm @ CHR '':'' # ds @ t) ((''hour'', dh) # g)
             (CHR '':'' # ds @ t) ((''minute'', dm) # (''hour'', dh) # g)"
    using assms by (intro leads_digits) auto
  have s: "leads (Group ''second'' (rep 1 2 digit)) (ds @ t) ((''minute'', dm) # (''hour'', dh) # g)
             t ((''second'', ds) # (''minute'', dm) # (''hour'', dh) # g)"
    using assms by (intro leads_digits) auto
  have o: "leads (seqs [Lit CHR '':'', Group ''second'' (rep 1 2 digit),
                Opt (seqs [Lit CHR ''.'', Group ''microsecond'' (rep 1 6 digit), rep 0 6 digit])])
             (CHR '':'' # ds @ t) ((''minute'', dm) # (''hour'', dh) # g)
             t ((''second'', ds) # (''minute'', dm) # (''hour'', dh) # g)"
    apply (rule leads_seqs_Cons [OF leads_Lit])
    apply (rule leads_seqs_Cons [OF s])
    apply (rule leads_seqs_Cons [OF leads_Opt2 [OF fails_fraction]])
     apply (rule assms)
    apply (rule leads_seqs_Nil)
    done
  show ?thesis
    unfolding TIME_PARTS_def
    apply (rule leads_seqs_Cons [OF h])
    apply (rule leads_seqs_Cons [OF leads_Lit])
    apply (rule leads_seqs_Cons [OF m])
    apply (rule leads_seqs_Cons [OF leads_Opt1 [OF o]])
    apply (rule leads_seqs_Nil)
    done
qed

lemma leads_TIME_fraction:
  assumes "list_all is_digit dh" "1 \<le> length dh" "length dh \<le> 2"
    and "list_all is_digit dm" "1 \<le> length dm" "length dm \<le> 2"
    and "list_all is_digit ds" "1 \<le> length ds" "length ds \<le> 2"
    and "list_all is_digit f" "f \<noteq> []" "\<not> starts is_digit t"
  shows "leads (seqs TIME_PARTS) (dh @ CHR '':'' # dm @ CHR '':'' # ds @ CHR ''.'' # f @ t) g
           (drop 12 f @ t)
           ((''microsecond'', take 6 f) # (''second'', ds) # (''minute'', dm) # (''hour'', dh) # g)"
proof -
  have h: "leads (Group ''hour'' (rep 1 2 digit)) (dh @ CHR '':'' # dm @ CHR '':'' # ds @ CHR ''.'' # f @ t) g
             (CHR '':'' # dm @ CHR '':'' # ds @ CHR ''.'' # f @ t) ((''hour'', dh) # g)"
    using assms by (intro leads_digits) auto
  have m: "leads (Group ''minute'' (rep 1 2 digit)) (dm @ CHR '':'' # ds @ CHR ''.'' # f @ t) ((''hour'', dh) # g)
             (CHR '':'' # ds @ CHR ''.'' # f @ t) ((''minute'', dm) # (''hour'', dh) # g)"
    using assms by (intro leads_digits) auto
  have s: "leads (Group ''second'' (rep 1 2 digit)) (ds @ CHR ''.'' # f @ t) ((''minute'', dm) # (''hour'', dh) # g)
             (CHR ''.'' # f @ t) ((''second'', ds) # (''minute'', dm) # (''hour'', dh) # g)"
    using assms by (intro leads_digits) auto
  have o: "leads (seqs [Lit CHR '':'', Group ''second'' (rep 1 2 digit),
                Opt (seqs [Lit CHR ''.'', Group ''microsecond'' (rep 1 6 digit), rep 0 6 digit])])
             (CHR '':'' # ds @ CHR ''.'' # f @ t) ((''minute'', dm) # (''hour'', dh) # g)
             (drop 12 f @ t)
             ((''microsecond'', take 6 f) # (''second'', ds) # (''minute'', dm) # (''hour'', dh) # g)"
    apply (rule leads_seqs_Cons [OF leads_Lit])
    apply (rule leads_seqs_Cons [OF s])
    apply (rule leads_seqs_Cons [OF leads_Opt1 [OF leads_fraction]])
       apply (rule assms)+
    apply (rule leads_seqs_Nil)
    done
  show ?thesis
    unfolding TIME_PARTS_def
    apply (rule leads_seqs_Cons [OF h])
    apply (rule leads_seqs_Cons [OF leads_Lit])
    apply (rule leads_seqs_Cons [OF m])
    apply (rule leads_seqs_Cons [OF leads_Opt1 [OF o]])
    apply (rule leads_seqs_Nil)
    done
qed


section \<open>TimeFormat and fractional seconds\<close>

lemma digit_val_range: "is_digit c \<Longrightarrow> 0 \<le> digit_val c \<and> digit_val c < 10"
  by (auto simp: digit_val_def char_class_defs)

lemma py_int_bounds: "list_all is_digit v \<Longrightarrow> 0 \<le> py_int v \<and> py_int v < 10 ^ length v"
proof (induction v rule: rev_induct)
  case Nil
  then show ?case by simp
next
  case (snoc c v)
  then have "0 \<le> py_int v" "py_int v + 1 \<le> 10 ^ length v" by auto
  moreover from snoc have "0 \<le> digit_val c" "digit_val c < 10" using digit_val_range by auto
  ultimately show ?case by (simp add: py_int_snoc)
qed

lemma ljust_digits:
  assumes "list_all is_digit v" "length v \<le> 6"
  shows "list_all is_digit (ljust 6 CHR ''0'' v)" "length (ljust 6 CHR ''0'' v) = 6"
  using assms by (auto simp: ljust_def list_all_iff)

lemma microsecond_range:
  assumes "list_all is_digit f"
  shows "0 \<le> py_int (ljust 6 CHR ''0'' (take 6 f))" "py_int (ljust 6 CHR ''0'' (take 6 f)) \<le> 999999"
proof -
  have "list_all is_digit (take 6 f)" "length (take 6 f) \<le> 6"
    using assms by (auto simp: list_all_iff dest: in_set_takeD)
  from ljust_digits [OF this] py_int_bounds [of "ljust 6 CHR ''0'' (take 6 f)"]
  show "0 \<le> py_int (ljust 6 CHR ''0'' (take 6 f))" "py_int (ljust 6 CHR ''0'' (take 6 f)) \<le> 999999"
    by auto
qed

lemma TimeFormat_validate_fraction:
  assumes "list_all is_digit dh" "1 \<le> length dh" "length dh \<le> 2"
    and "list_all is_digit dm" "1 \<le> length dm" "length dm \<le> 2"
    and "list_all is_digit ds" "1 \<le> length ds" "length ds \<le> 2"
    and "list_all is_digit f" "f \<noteq> []" "\<not> starts is_digit t"
  shows "TimeFormat_validate (dh @ CHR '':'' # dm @ CHR '':'' # ds @ CHR ''.'' # f @ t) =
     (if time_ok (py_int dh) (py_int dm) (py_int ds) 0
      then Inr (PyTime (Time (py_int dh) (py_int dm) (py_int ds) (py_int (ljust 6 CHR ''0'' (take 6 f)))))
      else Inl (ValidationError ''Must be a real time.'' ''invalid''))"
proof -
  from leads_re_match [OF leads_TIME_fraction [OF assms, of "[]"]]
  obtain m where m: "re_match TIME_REGEX (dh @ CHR '':'' # dm @ CHR '':'' # ds @ CHR ''.'' # f @ t) = Some m"
    "groups m = [(''microsecond'', take 6 f), (''second'', ds), (''minute'', dm), (''hour'', dh)]"
    unfolding TIME_REGEX_def by blast
  have "take 6 f \<noteq> []" using assms(11) by (cases f) auto
  then show ?thesis
    using m microsecond_range [OF assms(10)]
    by (auto simp: TimeFormat_validate_def groupdict_def pad_microsecond_def kwarg0_def kwarg_def
        time_new_def time_ok_def validation_error_def TimeFormat_errors_def Let_def)
qed

lemma TimeFormat_validate_seconds:
  assumes "list_all is_digit dh" "1 \<le> length dh" "length dh \<le> 2"
    and "list_all is_digit dm" "1 \<le> length dm" "length dm \<le> 2"
    and "list_all is_digit ds" "1 \<le> length ds" "length ds \<le> 2"
    and "\<not> starts is_digit t" "\<not> starts (\<lambda>x. x = CHR ''.'') t"
  shows "TimeFormat_validate (dh @ CHR '':'' # dm @ CHR '':'' # ds @ t) =
     (if time_ok (py_int dh) (py_int dm) (py_int ds) 0
      then Inr (PyTime (Time (py_int dh) (py_int dm) (py_int ds) 0))
      else Inl (ValidationError ''Must be a real time.'' ''invalid''))"
proof -
  from leads_re_match [OF leads_TIME_seconds [OF assms, of "[]"]]
  obtain m where m: "re_match TIME_REGEX (dh @ CHR '':'' # dm @ CHR '':'' # ds @ t) = Some m"
    "groups m = [(''second'', ds), (''minute'', dm), (''hour'', dh)]"
    unfolding TIME_REGEX_def by blast
  then show ?thesis
    by (auto simp: TimeFormat_validate_def groupdict_def pad_microsecond_def kwarg0_def kwarg_def
        time_new_def time_ok_def validation_error_def TimeFormat_errors_def Let_def)
qed


section \<open>DateTimeFormat: time zone designators\<close>

lemma sign_class: "is_sign = (\<lambda>c. c = CHR ''+'' \<or> c = CHR ''-'')"
  by (rule ext) (simp add: is_sign_def)

lemma is_sign_props: "is_sign c \<Longrightarrow> \<not> is_digit c \<and> c \<noteq> CHR ''.'' \<and> c \<noteq> CHR ''Z''"
  by (auto simp: is_sign_def)

lemma fails_TZINFO: "\<not> starts is_sign e \<Longrightarrow> \<not> starts (\<lambda>x. x = CHR ''Z'') e \<Longrightarrow> fails TZINFO e"
  unfolding TZINFO_def sign_class [symmetric]
  by (intro fails_Group fails_Alt fails_Lit fails_seqs_Cons1 fails_Class)

lemma tz_text_none: "tz_text [] None"
  unfolding tz_text_def tz_groups_def
  by (auto intro!: leads_seqs_Cons [OF leads_Opt2 [OF fails_TZINFO]] leads_seqs_Cons [OF leads_Eos]
      leads_seqs_Nil)

lemma leads_TZINFO_Eos:
  assumes "leads TZINFO z g [] g'"
  shows "leads (seqs [Opt TZINFO, Eos]) z g [] g'"
proof -
  have "leads (seqs [Eos]) [] g' [] g'"
    by (rule leads_seqs_Cons [OF leads_Eos leads_seqs_Nil]) simp
  with leads_Opt1 [OF assms] show ?thesis by (rule leads_seqs_Cons)
qed

lemma tz_text_Z: "tz_text ''Z'' (Some ''Z'')"
proof -
  have "leads TZINFO (''Z'' @ []) g [] ((''tzinfo'', ''Z'') # g)" for g
    unfolding TZINFO_def by (intro leads_Group leads_Alt1) (simp add: leads_Lit)
  then have "leads (seqs [Opt TZINFO, Eos]) ''Z'' g [] ((''tzinfo'', ''Z'') # g)" for g
    using leads_TZINFO_Eos [of "''Z''" g] by simp
  then show ?thesis by (simp add: tz_text_def tz_groups_def)
qed

lemma tz_text_offset:
  assumes "is_sign sg" "list_all is_digit hh" "length hh = 2"
    and "\<And>g0. leads (Opt (seqs [Opt (Lit CHR '':''), rep 2 2 digit])) (w @ []) g0 [] g0"
  shows "leads (seqs [Opt TZINFO, Eos]) (sg # hh @ w) g [] ((''tzinfo'', sg # hh @ w) # g)"
proof -
  have o: "leads (Opt (seqs [Opt (Lit CHR '':''), rep 2 2 digit])) w g [] g"
    using assms(4) [of g] by simp
  have h: "leads (rep 2 2 digit) (hh @ w) g w g"
    unfolding digit_def using assms by (intro leads_rep) auto
  have "fails (Lit CHR ''Z'') ((sg # hh @ w) @ [])"
    using assms(1) is_sign_props by (intro fails_Lit) auto
  moreover have "leads (seqs [Class (\<lambda>c. c = CHR ''+'' \<or> c = CHR ''-''), rep 2 2 digit,
          Opt (seqs [Opt (Lit CHR '':''), rep 2 2 digit])]) ((sg # hh @ w) @ []) g [] g"
    apply simp
    apply (rule leads_seqs_Cons [OF leads_Class])
    using assms(1) apply (simp add: is_sign_def)
    apply (rule leads_seqs_Cons [OF h])
    apply (rule leads_seqs_Cons [OF o])
    apply (rule leads_seqs_Nil)
    done
  ultimately have "leads TZINFO ((sg # hh @ w) @ []) g [] ((''tzinfo'', sg # hh @ w) # g)"
    unfolding TZINFO_def by (intro leads_Group leads_Alt2)
  then have "leads TZINFO (sg # hh @ w) g [] ((''tzinfo'', sg # hh @ w) # g)" by simp
  then show ?thesis by (rule leads_TZINFO_Eos)
qed



lemma tz_text_hh_mm:
  assumes "is_sign sg" "list_all is_digit hh" "length hh = 2" "list_all is_digit mm" "length mm = 2"
  shows "tz_text (sg # hh @ CHR '':'' # mm) (Some (sg # hh @ CHR '':'' # mm))"
proof -
  have "leads (seqs [Opt (Lit CHR '':''), rep 2 2 digit]) (CHR '':'' # mm @ []) g0 [] g0" for g0
    unfolding digit_def using assms
    by (intro leads_seqs_Cons [OF leads_Opt1 [OF leads_Lit]] leads_seqs_Cons [OF leads_rep] leads_seqs_Nil)
      auto
  then have "leads (Opt (seqs [Opt (Lit CHR '':''), rep 2 2 digit])) ((CHR '':'' # mm) @ []) g0 [] g0" for g0
    by (simp add: leads_Opt1)
  from tz_text_offset [OF assms(1-3) this]
  show ?thesis using assms(1) is_sign_props by (auto simp: tz_text_def tz_groups_def)
qed

section \<open>DateTimeFormat on well-formed strings\<close>

lemma leads_date_prefix:
  assumes "list_all is_digit dy" "length dy = 4"
    and "list_all is_digit dmo" "1 \<le> length dmo" "length dmo \<le> 2"
    and "list_all is_digit dd" "1 \<le> length dd" "length dd \<le> 2"
    and "sep = CHR ''T'' \<or> sep = CHR '' ''"
  shows "leads (seqs [Group ''year'' (rep 4 4 digit), Lit CHR ''-'',
                      Group ''month'' (rep 1 2 digit), Lit CHR ''-'',
                      Group ''day'' (rep 1 2 digit),
                      Class (\<lambda>c. c = CHR ''T'' \<or> c = CHR '' '')])
           (dy @ CHR ''-'' # dmo @ CHR ''-'' # dd @ sep # t) []
           t [(''day'', dd), (''month'', dmo), (''year'', dy)]"
proof -
  have y: "leads (Group ''year'' (rep 4 4 digit)) (dy @ CHR ''-'' # dmo @ CHR ''-'' # dd @ sep # t) []
      (CHR ''-'' # dmo @ CHR ''-'' # dd @ sep # t) [(''year'', dy)]"
    using assms by (intro leads_digits) auto
  have m: "leads (Group ''month'' (rep 1 2 digit)) (dmo @ CHR ''-'' # dd @ sep # t) [(''year'', dy)]
      (CHR ''-'' # dd @ sep # t) [(''month'', dmo), (''year'', dy)]"
    using assms by (intro leads_digits) auto
  have d: "leads (Group ''day'' (rep 1 2 digit)) (dd @ sep # t) [(''month'', dmo), (''year'', dy)]
      (sep # t) [(''day'', dd), (''month'', dmo), (''year'', dy)]"
    using assms by (intro leads_digits) auto
  show ?thesis
    apply (rule leads_seqs_Cons [OF y])
    apply (rule leads_seqs_Cons [OF leads_Lit])
    apply (rule leads_seqs_Cons [OF m])
    apply (rule leads_seqs_Cons [OF leads_Lit])
    apply (rule leads_seqs_Cons [OF d])
    apply (rule leads_seqs_Cons [OF leads_Class])
     apply (rule assms)
    apply (rule leads_seqs_Nil)
    done
qed

lemma leads_DATETIME:
  assumes "list_all is_digit dy" "length dy = 4"
    and "list_all is_digit dmo" "1 \<le> length dmo" "length dmo \<le> 2"
    and "list_all is_digit dd" "1 \<le> length dd" "length dd \<le> 2"
    and "sep = CHR ''T'' \<or> sep = CHR '' ''"
    and "leads (seqs TIME_PARTS) (tm @ z) [(''day'', dd), (''month'', dmo), (''year'', dy)] z
           (gt @ [(''day'', dd), (''month'', dmo), (''year'', dy)])"
    and "tz_text z v"
  shows "leads DATETIME_REGEX (dy @ CHR ''-'' # dmo @ CHR ''-'' # dd @ sep # tm @ z) []
           [] (tz_groups v @ gt @ [(''day'', dd), (''month'', dmo), (''year'', dy)])"
proof -
  from assms(11) have "leads (seqs [Opt TZINFO, Eos]) z
      (gt @ [(''day'', dd), (''month'', dmo), (''year'', dy)]) []
      (tz_groups v @ gt @ [(''day'', dd), (''month'', dmo), (''year'', dy)])"
    by (simp add: tz_text_def)
  from leads_seqs_append [OF leads_date_prefix [OF assms(1-9)] leads_seqs_append [OF assms(10) this]]
  show ?thesis by (simp add: DATETIME_REGEX_def)
qed


lemma DateTimeFormat_validate_groups:
  assumes "re_match DATETIME_REGEX str = Some m"
    and "groups m = tz_groups v @ gt @ [(''day'', dd), (''month'', dmo), (''year'', dy)]"
    and "gt = [(''second'', ds), (''minute'', dm), (''hour'', dh)] \<and> us = 0
         \<or> gt = [(''microsecond'', f), (''second'', ds), (''minute'', dm), (''hour'', dh)]
           \<and> f \<noteq> [] \<and> us = py_int (ljust 6 CHR ''0'' f)"
  shows "DateTimeFormat_validate str =
     (case tzinfo_of v of
        Inl e \<Rightarrow> Inl e
      | Inr tz \<Rightarrow>
          if date_ok (py_int dy) (py_int dmo) (py_int dd) \<and> time_ok (py_int dh) (py_int dm) (py_int ds) us
          then Inr (PyDateTime (DateTime (py_int dy) (py_int dmo) (py_int dd)
                                  (py_int dh) (py_int dm) (py_int ds) us tz))
          else Inl (ValidationError ''Must be a real datetime.'' ''invalid''))"
  using assms
  by (cases v; cases "tzinfo_of v")
    (auto simp: DateTimeFormat_validate_def groupdict_def pad_microsecond_def kwarg0_def kwarg_def
      datetime_new_def validation_error_def DateTimeFormat_errors_def Let_def tz_groups_def)


lemma DateTimeFormat_validate_seconds:
  assumes "list_all is_digit dy" "length dy = 4"
    and "list_all is_digit dmo" "1 \<le> length dmo" "length dmo \<le> 2"
    and "list_all is_digit dd" "1 \<le> length dd" "length dd \<le> 2"
    and "sep = CHR ''T'' \<or> sep = CHR '' ''"
    and "list_all is_digit dh" "1 \<le> length dh" "length dh \<le> 2"
    and "list_all is_digit dm" "1 \<le> length dm" "length dm \<le> 2"
    and "list_all is_digit ds" "1 \<le> length ds" "length ds \<le> 2"
    and "tz_text z v"
  shows "DateTimeFormat_validate
           (dy @ CHR ''-'' # dmo @ CHR ''-'' # dd @ sep # dh @ CHR '':'' # dm @ CHR '':'' # ds @ z) =
     (case tzinfo_of v of
        Inl e \<Rightarrow> Inl e
      | Inr tz \<Rightarrow>
          if date_ok (py_int dy) (py_int dmo) (py_int dd) \<and> time_ok (py_int dh) (py_int dm) (py_int ds) 0
          then Inr (PyDateTime (DateTime (py_int dy) (py_int dmo) (py_int dd)
                                  (py_int dh) (py_int dm) (py_int ds) 0 tz))
          else Inl (ValidationError ''Must be a real datetime.'' ''invalid''))"
proof -
  let ?G = "[(''day'', dd), (''month'', dmo), (''year'', dy)]"
  let ?gt = "[(''second'', ds), (''minute'', dm), (''hour'', dh)]"
  from assms(19) have z: "\<not> starts is_digit z" "\<not> starts (\<lambda>x. x = CHR ''.'') z"
    by (auto simp: tz_text_def)
  have "leads (seqs TIME_PARTS) (dh @ CHR '':'' # dm @ CHR '':'' # ds @ z) ?G z
          ((''second'', ds) # (''minute'', dm) # (''hour'', dh) # ?G)"
    by (rule leads_TIME_seconds [OF assms(10-18) z])
  then have "leads (seqs TIME_PARTS) ((dh @ CHR '':'' # dm @ CHR '':'' # ds) @ z) ?G z (?gt @ ?G)"
    by simp
  from leads_DATETIME [OF assms(1-9) this assms(19)]
  have "leads DATETIME_REGEX
          (dy @ CHR ''-'' # dmo @ CHR ''-'' # dd @ sep # dh @ CHR '':'' # dm @ CHR '':'' # ds @ z) []
          [] (tz_groups v @ ?gt @ ?G)"
    by simp
  from leads_re_match [OF this] obtain m where
    m: "re_match DATETIME_REGEX
          (dy @ CHR ''-'' # dmo @ CHR ''-'' # dd @ sep # dh @ CHR '':'' # dm @ CHR '':'' # ds @ z) = Some m"
       "groups m = tz_groups v @ ?gt @ ?G"
    by auto
  show ?thesis
    by (rule DateTimeFormat_validate_groups [OF m, where f = "[]"]) simp
qed

lemma DateTimeFormat_validate_fraction:
  assumes "list_all is_digit dy" "length dy = 4"
    and "list_all is_digit dmo" "1 \<le> length dmo" "length dmo \<le> 2"
    and "list_all is_digit dd" "1 \<le> length dd" "length dd \<le> 2"
    and "sep = CHR ''T'' \<or> sep = CHR '' ''"
    and "list_all is_digit dh" "1 \<le> length dh" "length dh \<le> 2"
    and "list_all is_digit dm" "1 \<le> length dm" "length dm \<le> 2"
    and "list_all is_digit ds" "1 \<le> length ds" "length ds \<le> 2"
    and "list_all is_digit f" "f \<noteq> []" "length f \<le> 12"
    and "tz_text z v"
  shows "DateTimeFormat_validate
           (dy @ CHR ''-'' # dmo @ CHR ''-'' # dd @ sep # dh @ CHR '':'' # dm @ CHR '':'' # ds
              @ CHR ''.'' # f @ z) =
     (case tzinfo_of v of
        Inl e \<Rightarrow> Inl e
      | Inr tz \<Rightarrow>
          if date_ok (py_int dy) (py_int dmo) (py_int dd) \<and> time_ok (py_int dh) (py_int dm) (py_int ds) 0
          then Inr (PyDateTime (DateTime (py_int dy) (py_int dmo) (py_int dd)
                                  (py_int dh) (py_int dm) (py_int ds)
                                  (py_int (ljust 6 CHR ''0'' (take 6 f))) tz))
          else Inl (ValidationError ''Must be a real datetime.'' ''invalid''))"
proof -
  let ?G = "[(''day'', dd), (''month'', dmo), (''year'', dy)]"
  let ?gt = "[(''microsecond'', take 6 f), (''second'', ds), (''minute'', dm), (''hour'', dh)]"
  let ?us = "py_int (ljust 6 CHR ''0'' (take 6 f))"
  from assms(22) have z: "\<not> starts is_digit z"
    by (auto simp: tz_text_def)
  have "leads (seqs TIME_PARTS) (dh @ CHR '':'' # dm @ CHR '':'' # ds @ CHR ''.'' # f @ z) ?G (drop 12 f @ z)
          ((''microsecond'', take 6 f) # (''second'', ds) # (''minute'', dm) # (''hour'', dh) # ?G)"
    by (rule leads_TIME_fraction [OF assms(10-20) z])
  with assms(21)
  have "leads (seqs TIME_PARTS) ((dh @ CHR '':'' # dm @ CHR '':'' # ds @ CHR ''.'' # f) @ z) ?G z (?gt @ ?G)"
    by simp
  from leads_DATETIME [OF assms(1-9) this assms(22)]
  have "leads DATETIME_REGEX
          (dy @ CHR ''-'' # dmo @ CHR ''-'' # dd @ sep # dh @ CHR '':'' # dm @ CHR '':'' # ds
              @ CHR ''.'' # f @ z) []
          [] (tz_groups v @ ?gt @ ?G)"
    by simp
  from leads_re_match [OF this] obtain m where
    m: "re_match DATETIME_REGEX
          (dy @ CHR ''-'' # dmo @ CHR ''-'' # dd @ sep # dh @ CHR '':'' # dm @ CHR '':'' # ds
              @ CHR ''.'' # f @ z) = Some m"
       "groups m = tz_groups v @ ?gt @ ?G"
    by auto
  have ok: "time_ok (py_int dh) (py_int dm) (py_int ds) ?us = time_ok (py_int dh) (py_int dm) (py_int ds) 0"
    using microsecond_range [OF assms(19)] by (simp add: time_ok_def)
  from assms(20) have "take 6 f \<noteq> []" by (cases f) auto
  then have "DateTimeFormat_validate
           (dy @ CHR ''-'' # dmo @ CHR ''-'' # dd @ sep # dh @ CHR '':'' # dm @ CHR '':'' # ds
              @ CHR ''.'' # f @ z) =
     (case tzinfo_of v of
        Inl e \<Rightarrow> Inl e
      | Inr tz \<Rightarrow>
          if date_ok (py_int dy) (py_int dmo) (py_int dd) \<and> time_ok (py_int dh) (py_int dm) (py_int ds) ?us
          then Inr (PyDateTime (DateTime (py_int dy) (py_int dmo) (py_int dd)
                                  (py_int dh) (py_int dm) (py_int ds) ?us tz))
          else Inl (ValidationError ''Must be a real datetime.'' ''invalid''))"
    by (intro DateTimeFormat_validate_groups [OF m, where f = "take 6 f"]) simp
  then show ?thesis by (simp only: ok)
qed

subsection \<open>The ISO 8601 strings\<close>

lemma days_in_month_le: "days_in_month y m \<le> 31"
  by (simp add: days_in_month_def)

lemma fmt_d_2:
  assumes "0 \<le> n" "n \<le> 99"
  shows "list_all is_digit (fmt_d 2 n)" "length (fmt_d 2 n) = 2" "py_int (fmt_d 2 n) = n"
  using fmt_d_props [of n 2] assms by simp_all

lemma fmt_d_4:
  assumes "0 \<le> n" "n \<le> 9999"
  shows "list_all is_digit (fmt_d 4 n)" "length (fmt_d 4 n) = 4" "py_int (fmt_d 4 n) = n"
  using fmt_d_props [of n 4] assms by simp_all

lemma fmt_d_6:
  assumes "0 \<le> n" "n \<le> 999999"
  shows "list_all is_digit (fmt_d 6 n)" "length (fmt_d 6 n) = 6" "py_int (fmt_d 6 n) = n"
  using fmt_d_props [of n 6] assms by simp_all

lemma DateTimeFormat_validate_isoformat:
  assumes d: "date_ok y mo d" and t: "time_ok h mi s us"
    and sep: "sep = CHR ''T'' \<or> sep = CHR '' ''"
    and z: "tz_text z v"
  shows "DateTimeFormat_validate (datetime_isoformat sep (DateTime y mo d h mi s us None) @ z) =
     (case tzinfo_of v of
        Inl e \<Rightarrow> Inl e
      | Inr tz \<Rightarrow> Inr (PyDateTime (DateTime y mo d h mi s us tz)))"
proof -
  from d have dr: "0 \<le> y" "y \<le> 9999" "0 \<le> mo" "mo \<le> 99" "0 \<le> d" "d \<le> 99"
    using days_in_month_le [of y mo] by (auto simp: date_ok_def)
  from t have tr: "0 \<le> h" "h \<le> 99" "0 \<le> mi" "mi \<le> 99" "0 \<le> s" "s \<le> 99" "0 \<le> us" "us \<le> 999999"
    by (auto simp: time_ok_def)
  note dy = fmt_d_4 [OF dr(1,2)]
  note dmo = fmt_d_2 [OF dr(3,4)]
  note dd = fmt_d_2 [OF dr(5,6)]
  note dh = fmt_d_2 [OF tr(1,2)]
  note dm = fmt_d_2 [OF tr(3,4)]
  note ds = fmt_d_2 [OF tr(5,6)]
  note f = fmt_d_6 [OF tr(7,8)]
  from t have t0: "time_ok h mi s 0" by (simp add: time_ok_def)
  show ?thesis
  proof (cases "us = 0")
    case True
    have "DateTimeFormat_validate
           (fmt_d 4 y @ CHR ''-'' # fmt_d 2 mo @ CHR ''-'' # fmt_d 2 d @ sep # fmt_d 2 h @ CHR '':'' #
              fmt_d 2 mi @ CHR '':'' # fmt_d 2 s @ z) =
     (case tzinfo_of v of
        Inl e \<Rightarrow> Inl e
      | Inr tz \<Rightarrow>
          if date_ok (py_int (fmt_d 4 y)) (py_int (fmt_d 2 mo)) (py_int (fmt_d 2 d))
             \<and> time_ok (py_int (fmt_d 2 h)) (py_int (fmt_d 2 mi)) (py_int (fmt_d 2 s)) 0
          then Inr (PyDateTime (DateTime (py_int (fmt_d 4 y)) (py_int (fmt_d 2 mo)) (py_int (fmt_d 2 d))
                                  (py_int (fmt_d 2 h)) (py_int (fmt_d 2 mi)) (py_int (fmt_d 2 s)) 0 tz))
          else Inl (ValidationError ''Must be a real datetime.'' ''invalid''))"
      by (rule DateTimeFormat_validate_seconds) (simp_all add: dy dmo dd dh dm ds sep z)
    then have "DateTimeFormat_validate
           (fmt_d 4 y @ CHR ''-'' # fmt_d 2 mo @ CHR ''-'' # fmt_d 2 d @ sep # fmt_d 2 h @ CHR '':'' #
              fmt_d 2 mi @ CHR '':'' # fmt_d 2 s @ z) =
     (case tzinfo_of v of
        Inl e \<Rightarrow> Inl e
      | Inr tz \<Rightarrow> Inr (PyDateTime (DateTime y mo d h mi s 0 tz)))"
      by (cases "tzinfo_of v") (simp_all add: dy dmo dd dh dm ds d t0)
    with True show ?thesis by (cases "tzinfo_of v") (simp_all add: hms_isoformat_def format_offset_def)
  next
    case False
    have lj: "ljust 6 CHR ''0'' (take 6 (fmt_d 6 us)) = fmt_d 6 us"
      "ljust 6 CHR ''0'' (fmt_d 6 us) = fmt_d 6 us"
      using f(2) by (simp_all add: ljust_def)
    have ne: "fmt_d 6 us \<noteq> []" using f(2) by auto
    have "DateTimeFormat_validate
           (fmt_d 4 y @ CHR ''-'' # fmt_d 2 mo @ CHR ''-'' # fmt_d 2 d @ sep # fmt_d 2 h @ CHR '':'' #
              fmt_d 2 mi @ CHR '':'' # fmt_d 2 s @ CHR ''.'' # fmt_d 6 us @ z) =
     (case tzinfo_of v of
        Inl e \<Rightarrow> Inl e
      | Inr tz \<Rightarrow>
          if date_ok (py_int (fmt_d 4 y)) (py_int (fmt_d 2 mo)) (py_int (fmt_d 2 d))
             \<and> time_ok (py_int (fmt_d 2 h)) (py_int (fmt_d 2 mi)) (py_int (fmt_d 2 s)) 0
          then Inr (PyDateTime (DateTime (py_int (fmt_d 4 y)) (py_int (fmt_d 2 mo)) (py_int (fmt_d 2 d))
                                  (py_int (fmt_d 2 h)) (py_int (fmt_d 2 mi)) (py_int (fmt_d 2 s))
                                  (py_int (ljust 6 CHR ''0'' (take 6 (fmt_d 6 us)))) tz))
          else Inl (ValidationError ''Must be a real datetime.'' ''invalid''))"
      by (rule DateTimeFormat_validate_fraction) (simp_all add: dy dmo dd dh dm ds f ne sep z)
    then have "DateTimeFormat_validate
           (fmt_d 4 y @ CHR ''-'' # fmt_d 2 mo @ CHR ''-'' # fmt_d 2 d @ sep # fmt_d 2 h @ CHR '':'' #
              fmt_d 2 mi @ CHR '':'' # fmt_d 2 s @ CHR ''.'' # fmt_d 6 us @ z) =
     (case tzinfo_of v of
        Inl e \<Rightarrow> Inl e
      | Inr tz \<Rightarrow> Inr (PyDateTime (DateTime y mo d h mi s us tz)))"
      by (cases "tzinfo_of v") (simp_all add: dy dmo dd dh dm ds f d t0 lj)
    with False show ?thesis by (cases "tzinfo_of v") (simp_all add: hms_isoformat_def format_offset_def)
  qed
qed

subsection \<open>The time zone designators\<close>

lemma tzinfo_of_None: "tzinfo_of None = Inr None"
  by (simp add: tzinfo_of_def)

lemma tzinfo_of_Z: "tzinfo_of (Some ''Z'') = Inr (Some 0)"
  by (simp add: tzinfo_of_def)

lemma tzinfo_of_offset:
  assumes "is_sign sg" "length hh = 2" "w = [] \<and> mm = [] \<or> (\<exists>c. w = c @ mm) \<and> length mm = 2"
  shows "tzinfo_of (Some (sg # hh @ w)) =
     (if - 1440 < offset_of sg hh mm \<and> offset_of sg hh mm < 1440
      then Inr (Some (offset_of sg hh mm)) else Inl ValueError)"
proof -
  have gen: "tzinfo_of (Some s) =
     (if - 1440 < offset_of sg hh mm \<and> offset_of sg hh mm < 1440
      then Inr (Some (offset_of sg hh mm)) else Inl ValueError)"
    if "s \<noteq> ''Z''" "take 2 (drop 1 s) = hh"
      "(if length s > 3 then py_int (drop (length s - 2) s) else 0) = py_int mm"
      "take 1 s = ''-'' \<longleftrightarrow> sg = CHR ''-''" for s
    using that by (simp add: tzinfo_of_def Let_def timezone_def offset_of_def)
  show ?thesis
    using assms by (intro gen) auto
qed




section \<open>Fractions of a second\<close>

lemma py_int_zeros_right:
  "py_int (v @ replicate n CHR ''0'') = py_int v * 10 ^ n"
proof (induction n)
  case 0
  then show ?case by simp
next
  case (Suc n)
  have "v @ replicate (Suc n) CHR ''0'' = (v @ replicate n CHR ''0'') @ [CHR ''0'']"
    by (simp add: replicate_append_same)
  then show ?case using Suc by (simp only: py_int_snoc) simp
qed

lemma py_int_ljust: "py_int (ljust 6 CHR ''0'' v) = py_int v * 10 ^ (6 - length v)"
  by (simp add: ljust_def py_int_zeros_right)

text \<open>
  Claim C8: \<open>TimeFormat.validate\<close> pads the digits of the fraction with zeros on the
  right to six digits, and drops the digits after the sixth, before it converts them:
  for the digits \<open>f\<close> that follow the point, the microsecond is the number written by
  the first six of them, times ten for each digit short of six. So \<open>.5\<close> gives 500000,
  and nothing is rounded. \<open>DateTimeFormat.validate\<close> does the same; its pattern admits
  at most twelve digits after the point.
\<close>

theorem fraction_padded_and_truncated:
  assumes "digit_string 1 2 dh" and "digit_string 1 2 dm" and "digit_string 1 2 ds"
    and "time_ok (py_int dh) (py_int dm) (py_int ds) 0"
    and "list_all is_digit f" and "f \<noteq> []"
    and "us = py_int (take 6 f) * 10 ^ (6 - length (take 6 f))"
  shows "(t = [] \<or> \<not> is_digit (hd t) \<longrightarrow>
           TimeFormat_validate (dh @ '':'' @ dm @ '':'' @ ds @ ''.'' @ f @ t)
             = Inr (PyTime (Time (py_int dh) (py_int dm) (py_int ds) us)))
    \<and> (digit_string 4 4 dy \<and> digit_string 1 2 dmo \<and> digit_string 1 2 dd
         \<and> date_ok (py_int dy) (py_int dmo) (py_int dd)
         \<and> (sep = CHR ''T'' \<or> sep = CHR '' '') \<and> length f \<le> 12 \<longrightarrow>
           DateTimeFormat_validate
               (dy @ ''-'' @ dmo @ ''-'' @ dd @ [sep] @ dh @ '':'' @ dm @ '':'' @ ds @ ''.'' @ f)
             = Inr (PyDateTime (DateTime (py_int dy) (py_int dmo) (py_int dd)
                                  (py_int dh) (py_int dm) (py_int ds) us None)))"
proof (intro conjI impI)
  from assms(1-3) have d: "list_all is_digit dh" "1 \<le> length dh" "length dh \<le> 2"
    "list_all is_digit dm" "1 \<le> length dm" "length dm \<le> 2"
    "list_all is_digit ds" "1 \<le> length ds" "length ds \<le> 2"
    by (auto simp: digit_string_def)
  have us: "py_int (ljust 6 CHR ''0'' (take 6 f)) = us"
    by (simp only: py_int_ljust assms(7))
  {
    assume "t = [] \<or> \<not> is_digit (hd t)"
    then have t: "\<not> starts is_digit t" by (cases t) auto
    from TimeFormat_validate_fraction [OF d assms(5,6) t] assms(4)
    show "TimeFormat_validate (dh @ '':'' @ dm @ '':'' @ ds @ ''.'' @ f @ t)
             = Inr (PyTime (Time (py_int dh) (py_int dm) (py_int ds) us))"
      by (simp add: us)
  }
  {
    assume a: "digit_string 4 4 dy \<and> digit_string 1 2 dmo \<and> digit_string 1 2 dd
         \<and> date_ok (py_int dy) (py_int dmo) (py_int dd)
         \<and> (sep = CHR ''T'' \<or> sep = CHR '' '') \<and> length f \<le> 12"
    then have dt: "list_all is_digit dy" "length dy = 4"
      "list_all is_digit dmo" "1 \<le> length dmo" "length dmo \<le> 2"
      "list_all is_digit dd" "1 \<le> length dd" "length dd \<le> 2"
      "sep = CHR ''T'' \<or> sep = CHR '' ''"
      by (auto simp: digit_string_def)
    from a have l: "length f \<le> 12" by simp
    from DateTimeFormat_validate_fraction [OF dt d assms(5,6) l tz_text_none] a assms(4)
    show "DateTimeFormat_validate
               (dy @ ''-'' @ dmo @ ''-'' @ dd @ [sep] @ dh @ '':'' @ dm @ '':'' @ ds @ ''.'' @ f)
             = Inr (PyDateTime (DateTime (py_int dy) (py_int dmo) (py_int dd)
                                  (py_int dh) (py_int dm) (py_int ds) us None))"
      by (simp add: us tzinfo_of_None)
  }
qed

theorem fraction_padded_and_truncated_witness:
  "digit_string 1 2 ''14'' \<and> digit_string 1 2 ''30'' \<and> digit_string 1 2 ''00''
   \<and> time_ok (py_int ''14'') (py_int ''30'') (py_int ''00'') 0
   \<and> digit_string 4 4 ''2021'' \<and> digit_string 1 2 ''06'' \<and> digit_string 1 2 ''01''
   \<and> date_ok (py_int ''2021'') (py_int ''06'') (py_int ''01'')
   \<and> TimeFormat_validate ''14:30:00.5'' = Inr (PyTime (Time 14 30 0 500000))
   \<and> TimeFormat_validate ''14:30:00.1234569'' = Inr (PyTime (Time 14 30 0 123456))
   \<and> DateTimeFormat_validate ''2021-06-01T14:30:00.5''
       = Inr (PyDateTime (DateTime 2021 6 1 14 30 0 500000 None))"
proof -
  have h: "digit_string 1 2 ''14''" "digit_string 1 2 ''30''" "digit_string 1 2 ''00''"
    "time_ok (py_int ''14'') (py_int ''30'') (py_int ''00'') 0"
    by code_simp+
  have g: "digit_string 4 4 ''2021''" "digit_string 1 2 ''06''" "digit_string 1 2 ''01''"
    "date_ok (py_int ''2021'') (py_int ''06'') (py_int ''01'')"
    by code_simp+
  have f1: "list_all is_digit ''5''" "''5'' \<noteq> []"
    "500000 = py_int (take 6 ''5'') * 10 ^ (6 - length (take 6 ''5''))"
    by code_simp+
  have f2: "list_all is_digit ''1234569''" "''1234569'' \<noteq> []"
    "123456 = py_int (take 6 ''1234569'') * 10 ^ (6 - length (take 6 ''1234569''))"
    by code_simp+
  have v: "py_int ''14'' = 14" "py_int ''30'' = 30" "py_int ''00'' = 0"
    "py_int ''2021'' = 2021" "py_int ''06'' = 6" "py_int ''01'' = 1"
    by code_simp+
  from fraction_padded_and_truncated [OF h f1, of "[]" "''2021''" "''06''" "''01''" "CHR ''T''"] g
  have 1: "TimeFormat_validate ''14:30:00.5'' = Inr (PyTime (Time 14 30 0 500000))"
    and 3: "DateTimeFormat_validate ''2021-06-01T14:30:00.5''
       = Inr (PyDateTime (DateTime 2021 6 1 14 30 0 500000 None))"
    by (simp_all add: v)
  from fraction_padded_and_truncated [OF h f2, of "[]"]
  have 2: "TimeFormat_validate ''14:30:00.1234569'' = Inr (PyTime (Time 14 30 0 123456))"
    by (simp add: v)
  from h g 1 2 3 show ?thesis by blast
qed

section \<open>TimeFormat: text after the time\<close>

lemma rmatch_extend_any:
  "no_lookahead r \<Longrightarrow> x \<in> set (rmatch r st) \<Longrightarrow> extend t x \<in> set (rmatch r (extend t st))"
proof (induction r st arbitrary: x rule: rmatch.induct)
  case (1 st)
  then show ?case by simp
next
  case (2 c st)
  then show ?case by (cases "rest st") (auto simp: extend_def split: if_splits)
next
  case (3 P st)
  then show ?case by (cases "rest st") (auto simp: extend_def split: if_splits)
next
  case (4 a b st)
  from "4.prems" obtain y where y: "y \<in> set (rmatch a st)" "x \<in> set (rmatch b y)" by auto
  with 4 have "extend t y \<in> set (rmatch a (extend t st))" "extend t x \<in> set (rmatch b (extend t y))"
    by auto
  then show ?case by auto
next
  case (5 a b st)
  then show ?case by auto
next
  case (6 a st)
  show ?case
  proof (cases "x = st")
    case True
    then show ?thesis by (subst set_rmatch_Star) simp
  next
    case False
    with "6.prems" obtain y where y: "y \<in> set (rmatch a st)" "length (rest y) < length (rest st)"
      "x \<in> set (rmatch (Star a) y)"
      by (subst (asm) set_rmatch_Star) auto
    with 6 have "extend t y \<in> set (rmatch a (extend t st))"
      "extend t x \<in> set (rmatch (Star a) (extend t y))"
      by auto
    moreover from y have "length (rest (extend t y)) < length (rest (extend t st))"
      by (simp add: extend_def)
    ultimately show ?thesis
      by (subst set_rmatch_Star) auto
  qed
next
  case (7 n a st)
  from "7.prems" obtain y where y: "y \<in> set (rmatch a st)"
    "x = y\<lparr>groups := (n, take (length (rest st) - length (rest y)) (rest st)) # groups y\<rparr>"
    by auto
  with 7 have "extend t y \<in> set (rmatch a (extend t st))" by auto
  moreover have "extend t x = (extend t y)\<lparr>groups := (n, take (length (rest (extend t st)) - length (rest (extend t y))) (rest (extend t st))) # groups (extend t y)\<rparr>"
    by (simp add: y extend_def)
  ultimately show ?case by (auto intro!: image_eqI)
next
  case (8 st)
  then show ?case by simp
next
  case (9 st)
  then show ?case by (auto simp: extend_def split: if_splits)
next
  case (10 st)
  then show ?case by simp
qed

lemma fails_no_digit_after:
  assumes "\<not> digit_after c t" "0 < lo"
  shows "fails (seqs (Lit c # Group n (rep lo hi digit) # rs)) t"
proof (cases "starts (\<lambda>x. x = c) t")
  case False
  then show ?thesis by (intro fails_seqs_Cons1 fails_Lit)
next
  case True
  then obtain t' where t: "t = c # t'" by (cases t) auto
  with assms(1) have "\<not> starts is_digit t'"
    by (cases t') (auto simp: digit_after_def)
  then have "fails (seqs (Group n (rep lo hi digit) # rs)) t'"
    unfolding digit_def by (intro fails_seqs_Cons1 fails_Group fails_rep assms(2))
  then show ?thesis
    unfolding t by (intro fails_seqs_Cons2 [OF only_Lit])
qed

lemma leads_TIME_hm:
  assumes "list_all is_digit dh" "1 \<le> length dh" "length dh \<le> 2"
    and "list_all is_digit dm" "1 \<le> length dm" "length dm \<le> 2"
    and "length dm = 2 \<or> \<not> starts is_digit t" "\<not> digit_after CHR '':'' t"
  shows "leads (seqs TIME_PARTS) (dh @ CHR '':'' # dm @ t) g
           t ((''minute'', dm) # (''hour'', dh) # g)"
proof -
  have h: "leads (Group ''hour'' (rep 1 2 digit)) (dh @ CHR '':'' # dm @ t) g (CHR '':'' # dm @ t)
             ((''hour'', dh) # g)"
    using assms by (intro leads_digits) auto
  have m: "leads (Group ''minute'' (rep 1 2 digit)) (dm @ t) ((''hour'', dh) # g) t
             ((''minute'', dm) # (''hour'', dh) # g)"
    using assms by (intro leads_digits) auto
  show ?thesis
    unfolding TIME_PARTS_def
    apply (rule leads_seqs_Cons [OF h])
    apply (rule leads_seqs_Cons [OF leads_Lit])
    apply (rule leads_seqs_Cons [OF m])
    apply (rule leads_seqs_Cons [OF leads_Opt2 [OF fails_no_digit_after]])
      apply (rule assms)
     apply simp
    apply (rule leads_seqs_Nil)
    done
qed

lemma leads_TIME_hms:
  assumes "list_all is_digit dh" "1 \<le> length dh" "length dh \<le> 2"
    and "list_all is_digit dm" "1 \<le> length dm" "length dm \<le> 2"
    and "list_all is_digit ds" "1 \<le> length ds" "length ds \<le> 2"
    and "length ds = 2 \<or> \<not> starts is_digit t" "\<not> digit_after CHR ''.'' t"
  shows "leads (seqs TIME_PARTS) (dh @ CHR '':'' # dm @ CHR '':'' # ds @ t) g
           t ((''second'', ds) # (''minute'', dm) # (''hour'', dh) # g)"
proof -
  have h: "leads (Group ''hour'' (rep 1 2 digit)) (dh @ CHR '':'' # dm @ CHR '':'' # ds @ t) g
             (CHR '':'' # dm @ CHR '':'' # ds @ t) ((''hour'', dh) # g)"
    using assms by (intro leads_digits) auto
  have m: "leads (Group ''minute'' (rep 1 2 digit)) (dm @ CHR '':'' # ds @ t) ((''hour'', dh) # g)
             (CHR '':'' # ds @ t) ((''minute'', dm) # (''hour'', dh) # g)"
    using assms by (intro leads_digits) auto
  have s: "leads (Group ''second'' (rep 1 2 digit)) (ds @ t) ((''minute'', dm) # (''hour'', dh) # g)
             t ((''second'', ds) # (''minute'', dm) # (''hour'', dh) # g)"
    using assms by (intro leads_digits) auto
  have o: "leads (seqs [Lit CHR '':'', Group ''second'' (rep 1 2 digit),
                Opt (seqs [Lit CHR ''.'', Group ''microsecond'' (rep 1 6 digit), rep 0 6 digit])])
             (CHR '':'' # ds @ t) ((''minute'', dm) # (''hour'', dh) # g)
             t ((''second'', ds) # (''minute'', dm) # (''hour'', dh) # g)"
    apply (rule leads_seqs_Cons [OF leads_Lit])
    apply (rule leads_seqs_Cons [OF s])
    apply (rule leads_seqs_Cons [OF leads_Opt2 [OF fails_no_digit_after]])
      apply (rule assms)
     apply simp
    apply (rule leads_seqs_Nil)
    done
  show ?thesis
    unfolding TIME_PARTS_def
    apply (rule leads_seqs_Cons [OF h])
    apply (rule leads_seqs_Cons [OF leads_Lit])
    apply (rule leads_seqs_Cons [OF m])
    apply (rule leads_seqs_Cons [OF leads_Opt1 [OF o]])
    apply (rule leads_seqs_Nil)
    done
qed

lemma TimeFormat_validate_hm:
  assumes "list_all is_digit dh" "1 \<le> length dh" "length dh \<le> 2"
    and "list_all is_digit dm" "1 \<le> length dm" "length dm \<le> 2"
    and "length dm = 2 \<or> \<not> starts is_digit t" "\<not> digit_after CHR '':'' t"
  shows "TimeFormat_validate (dh @ CHR '':'' # dm @ t) =
     (if time_ok (py_int dh) (py_int dm) 0 0
      then Inr (PyTime (Time (py_int dh) (py_int dm) 0 0))
      else Inl (ValidationError ''Must be a real time.'' ''invalid''))"
proof -
  from leads_re_match [OF leads_TIME_hm [OF assms, of "[]"]]
  obtain m where m: "re_match TIME_REGEX (dh @ CHR '':'' # dm @ t) = Some m"
    "groups m = [(''minute'', dm), (''hour'', dh)]"
    unfolding TIME_REGEX_def by blast
  then show ?thesis
    by (auto simp: TimeFormat_validate_def groupdict_def pad_microsecond_def kwarg0_def kwarg_def
        time_new_def time_ok_def validation_error_def TimeFormat_errors_def Let_def)
qed

lemma TimeFormat_validate_hms:
  assumes "list_all is_digit dh" "1 \<le> length dh" "length dh \<le> 2"
    and "list_all is_digit dm" "1 \<le> length dm" "length dm \<le> 2"
    and "list_all is_digit ds" "1 \<le> length ds" "length ds \<le> 2"
    and "length ds = 2 \<or> \<not> starts is_digit t" "\<not> digit_after CHR ''.'' t"
  shows "TimeFormat_validate (dh @ CHR '':'' # dm @ CHR '':'' # ds @ t) =
     (if time_ok (py_int dh) (py_int dm) (py_int ds) 0
      then Inr (PyTime (Time (py_int dh) (py_int dm) (py_int ds) 0))
      else Inl (ValidationError ''Must be a real time.'' ''invalid''))"
proof -
  from leads_re_match [OF leads_TIME_hms [OF assms, of "[]"]]
  obtain m where m: "re_match TIME_REGEX (dh @ CHR '':'' # dm @ CHR '':'' # ds @ t) = Some m"
    "groups m = [(''second'', ds), (''minute'', dm), (''hour'', dh)]"
    unfolding TIME_REGEX_def by blast
  then show ?thesis
    by (auto simp: TimeFormat_validate_def groupdict_def pad_microsecond_def kwarg0_def kwarg_def
        time_new_def time_ok_def validation_error_def TimeFormat_errors_def Let_def)
qed

lemma no_lookahead_TIME: "no_lookahead TIME_REGEX"
  by (simp add: TIME_REGEX_def TIME_PARTS_def seqs_def Opt_def rep_def digit_def eval_nat_numeral)

lemma TimeFormat_validate_format:
  assumes "list_all is_digit dh" "1 \<le> length dh" "length dh \<le> 2"
    and "list_all is_digit dm" "1 \<le> length dm" "length dm \<le> 2"
  shows "TimeFormat_validate (dh @ CHR '':'' # dm @ t)
           \<noteq> Inl (ValidationError ''Must be a valid time format.'' ''format'')"
proof -
  have "leads (seqs TIME_PARTS) (dh @ CHR '':'' # dm @ []) [] [] [(''minute'', dm), (''hour'', dh)]"
    by (rule leads_TIME_hm [OF assms]) (simp_all add: digit_after_def)
  from leads_re_match [OF this]
  obtain x where "re_match TIME_REGEX (dh @ CHR '':'' # dm) = Some x"
    unfolding TIME_REGEX_def by auto
  then have "x \<in> set (rmatch TIME_REGEX (start (dh @ CHR '':'' # dm)))"
    by (auto simp: re_match_def split: list.splits)
  from rmatch_extend_any [OF no_lookahead_TIME this, of t]
  have "rmatch TIME_REGEX (start (dh @ CHR '':'' # dm @ t)) \<noteq> []"
    by (auto simp: extend_def start_def)
  then obtain m where "re_match TIME_REGEX (dh @ CHR '':'' # dm @ t) = Some m"
    by (cases "rmatch TIME_REGEX (start (dh @ CHR '':'' # dm @ t))") (auto simp: re_match_def)
  then show ?thesis
    by (auto simp: TimeFormat_validate_def Let_def validation_error_def TimeFormat_errors_def
        time_new_def split: sum.splits if_splits)
qed

subsection \<open>Patterns that end in \<open>$\<close>\<close>

lemma rmatch_seqs_Eos:
  assumes "x \<in> set (rmatch (seqs (rs @ [Eos])) st)"
  shows "rest x = [] \<or> rest x = [CHR 0x0A]"
proof -
  from assms obtain y where "x \<in> set (rmatch (seqs [Eos]) y)"
    by (auto simp: rmatch_seqs_append)
  then show ?thesis by (auto simp: seqs_def split: if_splits)
qed

lemma re_match_seqs_Eos:
  assumes "re_match (seqs (rs @ [Eos])) s = Some m"
  shows "rest m = [] \<or> rest m = [CHR 0x0A]"
proof -
  from assms have "m \<in> set (rmatch (seqs (rs @ [Eos])) (start s))"
    by (auto simp: re_match_def split: list.splits)
  then show ?thesis by (rule rmatch_seqs_Eos)
qed

lemma re_match_DATE_end:
  "re_match DATE_REGEX s = Some m \<Longrightarrow> rest m = [] \<or> rest m = [CHR 0x0A]"
  using re_match_seqs_Eos [of "[Group ''year'' (rep 4 4 digit), Lit CHR ''-'',
      Group ''month'' (rep 1 2 digit), Lit CHR ''-'', Group ''day'' (rep 1 2 digit)]" s m]
  by (simp add: DATE_REGEX_def)

lemma re_match_DATETIME_end:
  "re_match DATETIME_REGEX s = Some m \<Longrightarrow> rest m = [] \<or> rest m = [CHR 0x0A]"
  using re_match_seqs_Eos [of "[Group ''year'' (rep 4 4 digit), Lit CHR ''-'',
       Group ''month'' (rep 1 2 digit), Lit CHR ''-'',
       Group ''day'' (rep 1 2 digit),
       Class (\<lambda>c. c = CHR ''T'' \<or> c = CHR '' '')] @ TIME_PARTS @ [Opt TZINFO]" s m]
  by (simp add: DATETIME_REGEX_def)


text \<open>
  Claim C10, as amended: \<open>TIME_REGEX\<close> has no end anchor, and \<open>TimeFormat.validate\<close>
  reads the longest time that the string starts with and ignores the text \<open>t\<close> after
  it. The time is hours and minutes, when \<open>t\<close> does not go on with a digit of the
  minutes or with a colon and a digit; hours, minutes and seconds, when \<open>t\<close> does not go
  on with a digit of the seconds or with a point and a digit; and with a fraction \<open>f\<close>,
  when \<open>t\<close> does not go on with a digit. When these digits are a time of the day, the
  result is that time, whatever \<open>t\<close> is otherwise. Whatever \<open>t\<close> is, a string that starts
  with hours and minutes passes the format check. \<open>DATE_REGEX\<close> and \<open>DATETIME_REGEX\<close> end
  in \<open>$\<close>: a match leaves nothing of the string unread, except the line feed that may
  end it.
\<close>

theorem TimeFormat_validate_not_anchored:
  assumes "digit_string 1 2 dh" and "digit_string 1 2 dm" and "digit_string 1 2 ds"
    and "list_all is_digit f" and "f \<noteq> []"
  shows "(time_ok (py_int dh) (py_int dm) 0 0
          \<and> (length dm = 2 \<or> \<not> starts is_digit t) \<and> \<not> digit_after CHR '':'' t \<longrightarrow>
            TimeFormat_validate (dh @ '':'' @ dm @ t)
              = Inr (PyTime (Time (py_int dh) (py_int dm) 0 0)))
    \<and> (time_ok (py_int dh) (py_int dm) (py_int ds) 0
          \<and> (length ds = 2 \<or> \<not> starts is_digit t) \<and> \<not> digit_after CHR ''.'' t \<longrightarrow>
            TimeFormat_validate (dh @ '':'' @ dm @ '':'' @ ds @ t)
              = Inr (PyTime (Time (py_int dh) (py_int dm) (py_int ds) 0)))
    \<and> (time_ok (py_int dh) (py_int dm) (py_int ds) 0 \<and> \<not> starts is_digit t \<longrightarrow>
            TimeFormat_validate (dh @ '':'' @ dm @ '':'' @ ds @ ''.'' @ f @ t)
              = Inr (PyTime (Time (py_int dh) (py_int dm) (py_int ds)
                               (py_int (take 6 f) * 10 ^ (6 - length (take 6 f))))))
    \<and> TimeFormat_validate (dh @ '':'' @ dm @ t)
          \<noteq> Inl (ValidationError ''Must be a valid time format.'' ''format'')
    \<and> (\<forall>s m. re_match DATE_REGEX s = Some m \<longrightarrow> rest m = [] \<or> rest m = [CHR 0x0A])
    \<and> (\<forall>s m. re_match DATETIME_REGEX s = Some m \<longrightarrow> rest m = [] \<or> rest m = [CHR 0x0A])"
proof -
  from assms(1-3) have d: "list_all is_digit dh" "1 \<le> length dh" "length dh \<le> 2"
    "list_all is_digit dm" "1 \<le> length dm" "length dm \<le> 2"
    "list_all is_digit ds" "1 \<le> length ds" "length ds \<le> 2"
    by (auto simp: digit_string_def)
  have 1: "TimeFormat_validate (dh @ '':'' @ dm @ t) = Inr (PyTime (Time (py_int dh) (py_int dm) 0 0))"
    if "time_ok (py_int dh) (py_int dm) 0 0" "length dm = 2 \<or> \<not> starts is_digit t"
      "\<not> digit_after CHR '':'' t"
    using TimeFormat_validate_hm [OF d(1-6) that(2,3)] that(1) by simp
  have 2: "TimeFormat_validate (dh @ '':'' @ dm @ '':'' @ ds @ t)
      = Inr (PyTime (Time (py_int dh) (py_int dm) (py_int ds) 0))"
    if "time_ok (py_int dh) (py_int dm) (py_int ds) 0" "length ds = 2 \<or> \<not> starts is_digit t"
      "\<not> digit_after CHR ''.'' t"
    using TimeFormat_validate_hms [OF d that(2,3)] that(1) by simp
  have 3: "TimeFormat_validate (dh @ '':'' @ dm @ '':'' @ ds @ ''.'' @ f @ t)
      = Inr (PyTime (Time (py_int dh) (py_int dm) (py_int ds)
                       (py_int (take 6 f) * 10 ^ (6 - length (take 6 f)))))"
    if "time_ok (py_int dh) (py_int dm) (py_int ds) 0" "\<not> starts is_digit t"
    using TimeFormat_validate_fraction [OF d assms(4,5) that(2)] that(1)
    by (simp add: py_int_ljust)
  have 4: "TimeFormat_validate (dh @ '':'' @ dm @ t)
      \<noteq> Inl (ValidationError ''Must be a valid time format.'' ''format'')"
    using TimeFormat_validate_format [OF d(1-6), of t] by simp
  from 1 2 3 4 re_match_DATE_end re_match_DATETIME_end show ?thesis by blast
qed

theorem TimeFormat_validate_not_anchored_witness:
  "digit_string 1 2 ''14'' \<and> digit_string 1 2 ''30'' \<and> digit_string 1 2 ''05''
   \<and> time_ok (py_int ''14'') (py_int ''30'') (py_int ''05'') 0
   \<and> TimeFormat_validate ''14:30garbage'' = Inr (PyTime (Time 14 30 0 0))
   \<and> TimeFormat_validate ''14:30:05garbage'' = Inr (PyTime (Time 14 30 5 0))
   \<and> TimeFormat_validate ''14:30:05.5garbage'' = Inr (PyTime (Time 14 30 5 500000))
   \<and> DateFormat_validate ''2021-06-01garbage''
       = Inl (ValidationError ''Must be a valid date format.'' ''format'')
   \<and> DateTimeFormat_validate ''2021-06-01T14:30garbage''
       = Inl (ValidationError ''Must be a valid datetime format.'' ''format'')"
proof -
  have h: "digit_string 1 2 ''14''" "digit_string 1 2 ''30''" "digit_string 1 2 ''05''"
    "list_all is_digit ''5''" "''5'' \<noteq> []"
    by code_simp+
  have c: "time_ok (py_int ''14'') (py_int ''30'') 0 0"
    "time_ok (py_int ''14'') (py_int ''30'') (py_int ''05'') 0"
    "length ''30'' = 2" "length ''05'' = 2"
    "\<not> starts is_digit ''garbage''"
    "\<not> digit_after CHR '':'' ''garbage''" "\<not> digit_after CHR ''.'' ''garbage''"
    by code_simp+
  have v: "py_int ''14'' = 14" "py_int ''30'' = 30" "py_int ''05'' = 5"
    "py_int ''5'' = 5"
    by code_simp+
  have a: "DateFormat_validate ''2021-06-01garbage''
       = Inl (ValidationError ''Must be a valid date format.'' ''format'')"
    "DateTimeFormat_validate ''2021-06-01T14:30garbage''
       = Inl (ValidationError ''Must be a valid datetime format.'' ''format'')"
    by code_simp+
  from TimeFormat_validate_not_anchored [OF h, of "''garbage''"] c
  have "TimeFormat_validate ''14:30garbage'' = Inr (PyTime (Time 14 30 0 0))
   \<and> TimeFormat_validate ''14:30:05garbage'' = Inr (PyTime (Time 14 30 5 0))
   \<and> TimeFormat_validate ''14:30:05.5garbage'' = Inr (PyTime (Time 14 30 5 500000))"
    by (simp add: v)
  with h c a show ?thesis by blast
qed

text \<open>
  The claim as stated fails for a text that goes on with the time: \<open>14:30\<close> is a valid
  time, and after it \<open>:99\<close> is read as the seconds, so that \<open>validate\<close> fails with the
  code \<open>invalid\<close>.
\<close>

theorem TimeFormat_validate_trailing_seconds_counterexample:
  "TimeFormat_validate ''14:30'' = Inr (PyTime (Time 14 30 0 0))
   \<and> TimeFormat_validate (''14:30'' @ '':99'')
       = Inl (ValidationError ''Must be a real time.'' ''invalid'')"
  by code_simp

section \<open>Round trips\<close>

text \<open>
  For five of the converters, every string that \<open>validate\<close> accepts gives a value that
  \<open>serialize\<close> writes as a string which \<open>validate\<close> accepts again, with the same value.
\<close>

subsection \<open>DateFormat\<close>

lemma DateFormat_validate_Inr:
  assumes "DateFormat_validate s = Inr v"
  obtains y m d where "v = PyDate (Date y m d)" "date_ok y m d"
  using assms
  by (auto simp: DateFormat_validate_def Let_def date_new_def
      split: option.splits sum.splits if_splits)

lemma DateFormat_validate_isoformat:
  assumes "date_ok y m d"
  shows "DateFormat_validate (date_isoformat (Date y m d)) = Inr (PyDate (Date y m d))"
proof -
  from assms have r: "0 \<le> y" "y \<le> 9999" "0 \<le> m" "m \<le> 99" "0 \<le> d" "d \<le> 99"
    using days_in_month_le [of y m] by (auto simp: date_ok_def)
  note dy = fmt_d_4 [OF r(1,2)]
  note dm = fmt_d_2 [OF r(3,4)]
  note dd = fmt_d_2 [OF r(5,6)]
  have "leads DATE_REGEX (fmt_d 4 y @ CHR ''-'' # fmt_d 2 m @ CHR ''-'' # fmt_d 2 d @ []) []
          [] [(''day'', fmt_d 2 d), (''month'', fmt_d 2 m), (''year'', fmt_d 4 y)]"
    by (rule leads_DATE) (simp_all add: dy dm dd)
  from leads_re_match [OF this] obtain x where
    x: "re_match DATE_REGEX (fmt_d 4 y @ CHR ''-'' # fmt_d 2 m @ CHR ''-'' # fmt_d 2 d) = Some x"
      "groups x = [(''day'', fmt_d 2 d), (''month'', fmt_d 2 m), (''year'', fmt_d 4 y)]"
    by auto
  then show ?thesis
    using assms
    by (simp add: DateFormat_validate_def groupdict_def kwarg_def date_new_def dy dm dd)
qed

lemma DateFormat_round_trip:
  assumes "DateFormat_validate s = Inr v"
  shows "\<exists>out. DateFormat_serialize v = Inr (PyStr out) \<and> DateFormat_validate out = Inr v"
proof -
  from assms obtain y m d where v: "v = PyDate (Date y m d)" "date_ok y m d"
    by (rule DateFormat_validate_Inr)
  then show ?thesis
    using DateFormat_validate_isoformat [OF v(2)] by simp
qed

subsection \<open>TimeFormat\<close>

lemma TimeFormat_validate_Inr:
  assumes "TimeFormat_validate s = Inr v"
  obtains h mi sec us where "v = PyTime (Time h mi sec us)" "time_ok h mi sec us"
  using assms
  by (auto simp: TimeFormat_validate_def Let_def time_new_def
      split: option.splits sum.splits if_splits)

lemma TimeFormat_validate_isoformat:
  assumes "time_ok h mi s us"
  shows "TimeFormat_validate (time_isoformat (Time h mi s us)) = Inr (PyTime (Time h mi s us))"
proof -
  from assms have tr: "0 \<le> h" "h \<le> 99" "0 \<le> mi" "mi \<le> 99" "0 \<le> s" "s \<le> 99"
    "0 \<le> us" "us \<le> 999999"
    by (auto simp: time_ok_def)
  note dh = fmt_d_2 [OF tr(1,2)]
  note dm = fmt_d_2 [OF tr(3,4)]
  note ds = fmt_d_2 [OF tr(5,6)]
  note f = fmt_d_6 [OF tr(7,8)]
  from assms have t0: "time_ok h mi s 0" by (simp add: time_ok_def)
  show ?thesis
  proof (cases "us = 0")
    case True
    have "TimeFormat_validate (fmt_d 2 h @ CHR '':'' # fmt_d 2 mi @ CHR '':'' # fmt_d 2 s @ []) =
       (if time_ok (py_int (fmt_d 2 h)) (py_int (fmt_d 2 mi)) (py_int (fmt_d 2 s)) 0
        then Inr (PyTime (Time (py_int (fmt_d 2 h)) (py_int (fmt_d 2 mi)) (py_int (fmt_d 2 s)) 0))
        else Inl (ValidationError ''Must be a real time.'' ''invalid''))"
      by (rule TimeFormat_validate_seconds) (simp_all add: dh dm ds)
    with True t0 show ?thesis by (simp add: hms_isoformat_def dh dm ds)
  next
    case False
    have ne: "fmt_d 6 us \<noteq> []" using f(2) by auto
    have lj: "ljust 6 CHR ''0'' (fmt_d 6 us) = fmt_d 6 us"
      using f(2) by (simp add: ljust_def)
    have "TimeFormat_validate (fmt_d 2 h @ CHR '':'' # fmt_d 2 mi @ CHR '':'' # fmt_d 2 s @ CHR ''.'' #
              fmt_d 6 us @ []) =
       (if time_ok (py_int (fmt_d 2 h)) (py_int (fmt_d 2 mi)) (py_int (fmt_d 2 s)) 0
        then Inr (PyTime (Time (py_int (fmt_d 2 h)) (py_int (fmt_d 2 mi)) (py_int (fmt_d 2 s))
                            (py_int (ljust 6 CHR ''0'' (take 6 (fmt_d 6 us))))))
        else Inl (ValidationError ''Must be a real time.'' ''invalid''))"
      by (rule TimeFormat_validate_fraction) (simp_all add: dh dm ds f ne)
    with False t0 show ?thesis by (simp add: hms_isoformat_def dh dm ds f lj)
  qed
qed

lemma TimeFormat_round_trip:
  assumes "TimeFormat_validate s = Inr v"
  shows "\<exists>out. TimeFormat_serialize v = Inr (PyStr out) \<and> TimeFormat_validate out = Inr v"
proof -
  from assms obtain h mi sec us where v: "v = PyTime (Time h mi sec us)" "time_ok h mi sec us"
    by (rule TimeFormat_validate_Inr)
  then show ?thesis
    using TimeFormat_validate_isoformat [OF v(2)] by simp
qed


subsection \<open>DateTimeFormat\<close>

lemma tzinfo_of_ok: "tzinfo_of x = Inr tz \<Longrightarrow> tz_ok tz"
  by (auto simp: tzinfo_of_def Let_def timezone_def tz_ok_def split: option.splits if_splits)

lemma DateTimeFormat_validate_Inr:
  assumes "DateTimeFormat_validate str = Inr v"
  obtains y mo d h mi s us tz where "v = PyDateTime (DateTime y mo d h mi s us tz)"
    "date_ok y mo d" "time_ok h mi s us" "tz_ok tz"
  using assms
  by (auto simp: DateTimeFormat_validate_def Let_def datetime_new_def
      split: option.splits sum.splits if_splits dest: tzinfo_of_ok)

lemma format_offset_designator:
  assumes "- 1440 < off" "off < 1440"
  obtains sg hh mm where "format_offset (Some off) = sg # hh @ CHR '':'' # mm"
    "is_sign sg" "list_all is_digit hh" "length hh = 2" "list_all is_digit mm" "length mm = 2"
    "offset_of sg hh mm = off"
proof -
  have r: "0 \<le> \<bar>off\<bar> div 60" "\<bar>off\<bar> div 60 \<le> 99" "0 \<le> \<bar>off\<bar> mod 60" "\<bar>off\<bar> mod 60 \<le> 99"
    using assms by auto
  note hh = fmt_d_2 [OF r(1,2)]
  note mm = fmt_d_2 [OF r(3,4)]
  let ?sg = "if off < 0 then CHR ''-'' else CHR ''+''"
  have "format_offset (Some off) = ?sg # fmt_d 2 (\<bar>off\<bar> div 60) @ CHR '':'' # fmt_d 2 (\<bar>off\<bar> mod 60)"
    by (simp add: format_offset_def)
  moreover have "is_sign ?sg" by (simp add: is_sign_def)
  moreover have "offset_of ?sg (fmt_d 2 (\<bar>off\<bar> div 60)) (fmt_d 2 (\<bar>off\<bar> mod 60)) = off"
    by (simp add: offset_of_def hh mm)
  ultimately show ?thesis using that hh mm by blast
qed

lemma DateTimeFormat_round_trip_value:
  assumes d: "date_ok y mo d" and t: "time_ok h mi s us" and tz: "tz_ok tz"
  shows "\<exists>out. DateTimeFormat_serialize (PyDateTime (DateTime y mo d h mi s us tz)) = Inr (PyStr out)
           \<and> DateTimeFormat_validate out = Inr (PyDateTime (DateTime y mo d h mi s us tz))"
proof -
  define b where "b = datetime_isoformat CHR ''T'' (DateTime y mo d h mi s us None)"
  have v: "datetime_isoformat CHR ''T'' (DateTime y mo d h mi s us tz) = b @ format_offset tz"
    unfolding b_def by (rule datetime_isoformat_split)
  note e = endswith_isoformat [OF tz, of y mo d h mi s us, unfolded v]
  note iso = DateTimeFormat_validate_isoformat [OF d t, of "CHR ''T''", folded b_def, simplified]
  have ser: "DateTimeFormat_serialize (PyDateTime (DateTime y mo d h mi s us tz)) =
      Inr (PyStr (if tz = Some 0 then take (length (b @ format_offset tz) - 6) (b @ format_offset tz) @ ''Z''
                  else b @ format_offset tz))"
    using e by (simp add: Let_def v del: datetime_isoformat.simps)
  show ?thesis
  proof (cases tz)
    case None
    have "DateTimeFormat_validate (b @ []) = Inr (PyDateTime (DateTime y mo d h mi s us None))"
      using iso [OF tz_text_none] by (simp add: tzinfo_of_None)
    with None ser show ?thesis by (simp add: format_offset_def)
  next
    case (Some off)
    show ?thesis
    proof (cases "off = 0")
      case True
      have z: "format_offset (Some 0) = ''+00:00''"
        using format_offset_props(2) [of 0] by simp
      have "DateTimeFormat_validate (b @ ''Z'') = Inr (PyDateTime (DateTime y mo d h mi s us (Some 0)))"
        using iso [OF tz_text_Z] by (simp add: tzinfo_of_Z)
      with Some True ser show ?thesis by (simp add: z)
    next
      case False
      from tz Some have r: "- 1440 < off" "off < 1440" by (simp_all add: tz_ok_def)
      from format_offset_designator [OF r] obtain sg hh mm where
        f: "format_offset (Some off) = sg # hh @ CHR '':'' # mm"
        "is_sign sg" "list_all is_digit hh" "length hh = 2" "list_all is_digit mm" "length mm = 2"
        "offset_of sg hh mm = off"
        by blast
      have "tzinfo_of (Some (sg # hh @ CHR '':'' # mm)) = Inr (Some off)"
        using tzinfo_of_offset [OF f(2,4), of "CHR '':'' # mm" mm] f(6,7) r by simp
      then have "DateTimeFormat_validate (b @ sg # hh @ CHR '':'' # mm)
          = Inr (PyDateTime (DateTime y mo d h mi s us (Some off)))"
        using iso [OF tz_text_hh_mm [OF f(2-6)]] by simp
      with Some False ser show ?thesis by (simp add: f(1))
    qed
  qed
qed

lemma DateTimeFormat_round_trip:
  assumes "DateTimeFormat_validate str = Inr v"
  shows "\<exists>out. DateTimeFormat_serialize v = Inr (PyStr out) \<and> DateTimeFormat_validate out = Inr v"
proof -
  from assms obtain y mo d h mi s us tz where v: "v = PyDateTime (DateTime y mo d h mi s us tz)"
    "date_ok y mo d" "time_ok h mi s us" "tz_ok tz"
    by (rule DateTimeFormat_validate_Inr)
  show ?thesis
    unfolding v(1) by (rule DateTimeFormat_round_trip_value [OF v(2-4)])
qed

subsection \<open>UUIDFormat and EmailFormat\<close>

lemma UUIDFormat_round_trip:
  assumes "UUIDFormat_validate s = Inr v"
  shows "\<exists>out. UUIDFormat_serialize v = Inr (PyStr out) \<and> UUIDFormat_validate out = Inr v"
proof -
  from assms have f: "fits (uuid_pattern hex_lower variant_nibble) s"
    by (auto simp: UUIDFormat_validate_def re_match_UUID validation_error_def split: if_splits)
  with assms have v: "v = PyUUID (hex_value (filter (\<lambda>c. c \<noteq> CHR ''-'') (take 36 s)))"
    by (auto simp: UUIDFormat_validate_def re_match_UUID uuid_UUID_fits split: if_splits)
  have l: "length (uuid_pattern hex_lower variant_nibble) = 36"
    by (simp add: uuid_pattern_def)
  from f have f': "fits (uuid_pattern hex_lower variant_nibble) (take 36 s)"
    using fits_take [of "uuid_pattern hex_lower variant_nibble" s] by (simp add: l)
  have "UUIDFormat_serialize v = Inr (PyStr (take 36 s))"
    by (simp add: UUIDFormat_serialize_def v uuid_str_value [OF f])
  moreover have "UUIDFormat_validate (take 36 s) = Inr v"
    using f' by (simp add: UUIDFormat_validate_def re_match_UUID uuid_UUID_fits v str_rstrip_def)
  ultimately show ?thesis by blast
qed

lemma EmailFormat_round_trip:
  assumes "EmailFormat_validate s = Inr v"
  shows "\<exists>out. EmailFormat_serialize v = Inr (PyStr out) \<and> EmailFormat_validate out = Inr v"
  using assms
  by (auto simp: EmailFormat_validate_def EmailFormat_serialize_def split: option.splits)

subsection \<open>URLFormat\<close>

text \<open>
  Claim C1: for every converter and every string that \<open>validate\<close> accepts, the
  serialized value is accepted again and parses to an equal value. The five converters
  above keep this; \<open>URLFormat\<close> breaks it. Its pattern lets any text follow the URL, and
  \<open>urlsplit\<close> removes tabs and line breaks from the whole string: \<open>a.com\<close>, a tab and
  \<open>x\<close> is accepted and parsed with the netloc \<open>a.comx\<close>, which serializes to
  \<open>http://a.comx\<close>, and that string is rejected with the code \<open>format\<close>.
\<close>

theorem URLFormat_round_trip_counterexample:
  "URLFormat_validate (''a.com'' @ [CHR 0x09] @ ''x'')
     = Inr (PyURL \<lparr>scheme = ''http'', netloc = ''a.comx'', path = [], params = [],
                     query = [], fragment = []\<rparr>)
   \<and> URLFormat_serialize (PyURL \<lparr>scheme = ''http'', netloc = ''a.comx'', path = [], params = [],
                                  query = [], fragment = []\<rparr>)
     = Inr (PyStr ''http://a.comx'')
   \<and> URLFormat_validate ''http://a.comx''
     = Inl (ValidationError ''Must be valid URL format.'' ''format'')"
  by code_simp

end
